theory Spec2Isabelle
  imports Complex_Main
begin

section \<open>Data model\<close>

text \<open>
  The program is one Streamlit script (\<^verbatim>\<open>project_naranja.py\<close>) that is run from top to
  bottom after every user action and after every \<^verbatim>\<open>st.rerun()\<close>. Its memory between
  two runs is \<^verbatim>\<open>st.session_state\<close>. A run is modelled as a function from the session
  state, the user action that caused the run, the clock and the answers of the external
  services to the new session state and the list of things shown to the user.
\<close>

datatype difficulty =
  MS | HS_EASY | HS_REGS | HS_HARD | HS_NATS | ONE_DOT | TWO_DOT | THREE_DOT | FOUR_DOT

datatype category =
  LITERATURE | HISTORY | SCIENCE | FINE_ARTS | RELIGION | MYTHOLOGY | PHILOSOPHY
  | SOCIAL_SCIENCE | GEOGRAPHY | OTHER_ACADEMIC | TRASH

definition difficulty_map :: "(string \<times> difficulty) list" where
  "difficulty_map =
    [(''Middle School'', MS), (''High School (Easy)'', HS_EASY),
     (''High School (Regular)'', HS_REGS), (''High School (Hard)'', HS_HARD),
     (''High School (Nationals)'', HS_NATS), (''College (Easy)'', ONE_DOT),
     (''College (Medium)'', TWO_DOT), (''College (Hard)'', THREE_DOT),
     (''College (Hardest)'', FOUR_DOT)]"

definition category_map :: "(string \<times> category) list" where
  "category_map =
    [(''Literature'', LITERATURE), (''History'', HISTORY), (''Science'', SCIENCE),
     (''Fine Arts'', FINE_ARTS), (''Religion'', RELIGION), (''Mythology'', MYTHOLOGY),
     (''Philosophy'', PHILOSOPHY), (''Social Science'', SOCIAL_SCIENCE),
     (''Geography'', GEOGRAPHY), (''Other Academic'', OTHER_ACADEMIC),
     (''Pop Culture / Trash'', TRASH)]"

text \<open>The fields of the question-bank objects that the script reads.\<close>

record tossup =
  question_sanitized :: string
  answer :: string
  answer_sanitized :: string
  tossup_set_name :: string
  tossup_category :: string

record bonus =
  leadin :: string
  parts :: "string list"
  answers :: "string list"
  bonus_set_name :: string
  bonus_category :: string

datatype question = Tossup tossup | Bonus bonus

text \<open>Python exceptions, as far as the script tells them apart.\<close>

datatype exn =
  IndexError | KeyError | TypeError | AttributeError
  | ConnectionError string | HTTPError nat | JSONDecodeError
  | OtherException string

text \<open>The five values the script stores under \<^verbatim>\<open>tossup_state\<close>.\<close>

datatype tstate = Waiting | Reading | GracePeriod | Buzzed | Over

text \<open>
  The session state of the trainer tab. A key that has not been assigned yet is
  \<open>None\<close>; \<open>feedback\<close> can also hold Python's \<^verbatim>\<open>None\<close>, which is \<open>Some None\<close>.
  \<open>checked\<close> lists the keys of the check boxes that are ticked. \<open>fetches\<close> is not a
  key of the script: it counts the requests sent to the question bank so far.
\<close>

record session =
  question :: "question option"
  q_type :: string
  checked :: "string list"
  words :: "string list option"
  tossup_state :: "tstate option"
  word_index :: "int option"
  feedback :: "(string \<times> string) option option"
  grace_period_end :: "real option"
  bonus_answers :: "(bool \<times> string) list option"
  fetches :: nat

text \<open>
  The external services. The question bank answers its \<open>n\<close>-th request with a list of
  questions or raises; the answer judge returns a verdict or raises;
  \<open>render_explanations\<close> stands for the explanation panels of the review screen
  (sentence splitting and one call of the explanation fetcher per panel), which do not
  write to the session state: it is \<open>None\<close> when all of them return.
\<close>

record env =
  random_tossup :: "nat \<Rightarrow> difficulty list \<Rightarrow> category list \<Rightarrow> exn + tossup list"
  random_bonus :: "nat \<Rightarrow> difficulty list \<Rightarrow> category list \<Rightarrow> exn + bonus list"
  check_answer_sync :: "tossup \<Rightarrow> string \<Rightarrow> exn + bool"
  check_answer :: "string \<Rightarrow> string \<Rightarrow> exn + bool"
  render_explanations :: "question \<Rightarrow> exn option"

text \<open>What caused a run of the script.\<close>

datatype event =
  Rerun
  | SetQType string
  | SetCheckbox string bool
  | ClickGetNewQuestion
  | ClickStartReading
  | ClickBuzz
  | SubmitAnswer string
  | SubmitBonusPart nat string
  | ClickNextQuestion

text \<open>
  What a run shows. Formatted texts are kept as their parts: \<open>ErrorExc p x\<close> is
  \<^verbatim>\<open>st.error(p + str(x))\<close>, \<open>TimeToBuzz r\<close> the remaining-time notice, \<open>Uncaught x\<close>
  an exception that left the script and ended the run.
\<close>

datatype out =
  Info string | Error string | ErrorExc string exn | Warning string | Success string
  | Markdown string
  | QuestionHeader string string string
  | TimeToBuzz real
  | Leadin string
  | Part nat string
  | Answered bool string
  | CorrectAnswer string
  | ReviewHeader
  | PartReview nat string string
  | Uncaught exn

section \<open>Strings\<close>

text \<open>
  \<^verbatim>\<open>str.split()\<close> without arguments: maximal runs of non-space characters. The
  characters of HOL are bytes, so the spaces are those of Latin-1.
\<close>

definition is_space :: "char \<Rightarrow> bool" where
  "is_space c \<longleftrightarrow> c \<in> set [CHR 0x09, CHR 0x0A, CHR 0x0B, CHR 0x0C, CHR 0x0D,
     CHR 0x1C, CHR 0x1D, CHR 0x1E, CHR 0x1F, CHR 0x20, CHR 0x85, CHR 0xA0]"

fun split_from :: "string \<Rightarrow> string \<Rightarrow> string list" where
  "split_from cur [] = (if cur = [] then [] else [cur])"
| "split_from cur (c # cs) =
     (if is_space c then (if cur = [] then split_from [] cs else cur # split_from [] cs)
      else split_from (cur @ [c]) cs)"

definition py_split :: "string \<Rightarrow> string list" where
  "py_split s = split_from [] s"

fun join :: "string \<Rightarrow> string list \<Rightarrow> string" where
  "join sep [] = []"
| "join sep [x] = x"
| "join sep (x # y # ys) = x @ sep @ join sep (y # ys)"

text \<open>\<^verbatim>\<open>xs[:k]\<close>: a negative \<open>k\<close> counts from the end.\<close>

definition py_take :: "int \<Rightarrow> 'a list \<Rightarrow> 'a list" where
  "py_take k xs = (if 0 \<le> k then take (nat k) xs else take (nat (int (length xs) + k)) xs)"

section \<open>Fetching a question\<close>

definition selected_difficulties :: "session \<Rightarrow> difficulty list" where
  "selected_difficulties s =
     map snd (filter (\<lambda>(name, diff_enum). (''diff_'' @ name) \<in> set (checked s)) difficulty_map)"

definition selected_categories :: "session \<Rightarrow> category list" where
  "selected_categories s =
     map snd (filter (\<lambda>(name, cat_enum). (''cat_'' @ name) \<in> set (checked s)) category_map)"

text \<open>The two \<^verbatim>\<open>except\<close> branches of \<^verbatim>\<open>get_new_question\<close>.\<close>

definition fetch_failed :: "exn \<Rightarrow> session \<Rightarrow> session \<times> out list" where
  "fetch_failed x s =
     (if x = IndexError then
        (s\<lparr>question := None\<rparr>,
         [Error ''No questions found with the selected criteria. Please broaden your selection.''])
      else (s\<lparr>question := None\<rparr>, [ErrorExc ''An error occurred: '' x]))"

definition get_new_question :: "env \<Rightarrow> session \<Rightarrow> session \<times> out list" where
  "get_new_question e s =
     (if selected_difficulties s = [] \<or> selected_categories s = [] then
        (s, [Error ''Please select at least one difficulty and one category.''])
      else if q_type s = ''Tossup'' then
        (case random_tossup e (fetches s) (selected_difficulties s) (selected_categories s) of
           Inl x \<Rightarrow> fetch_failed x (s\<lparr>fetches := Suc (fetches s)\<rparr>)
         | Inr [] \<Rightarrow> fetch_failed IndexError (s\<lparr>fetches := Suc (fetches s)\<rparr>)
         | Inr (q # _) \<Rightarrow>
             (s\<lparr>fetches := Suc (fetches s),
                words := Some (py_split (question_sanitized q)),
                tossup_state := Some Waiting,
                question := Some (Tossup q),
                word_index := Some (- 1),
                feedback := Some None\<rparr>, []))
      else
        (case random_bonus e (fetches s) (selected_difficulties s) (selected_categories s) of
           Inl x \<Rightarrow> fetch_failed x (s\<lparr>fetches := Suc (fetches s)\<rparr>)
         | Inr [] \<Rightarrow> fetch_failed IndexError (s\<lparr>fetches := Suc (fetches s)\<rparr>)
         | Inr (q # _) \<Rightarrow>
             (s\<lparr>fetches := Suc (fetches s),
                bonus_answers := Some [],
                question := Some (Bonus q),
                word_index := Some (- 1),
                feedback := Some None\<rparr>, [])))"

section \<open>The trainer tab\<close>

text \<open>
  Each branch returns the session state, what it showed, and whether the script goes on
  to the review section: \<open>False\<close> after \<^verbatim>\<open>st.rerun()\<close> and after an exception.
\<close>

definition st_attr :: "string \<Rightarrow> (string \<Rightarrow> out) option" where
  "st_attr name =
     (if name = ''success'' then Some Success
      else if name = ''error'' then Some Error
      else if name = ''warning'' then Some Warning
      else if name = ''info'' then Some Info
      else if name = ''markdown'' then Some Markdown
      else None)"

definition revealed_text :: "string list \<Rightarrow> int \<Rightarrow> string" where
  "revealed_text ws i = join '' '' (py_take (i + 1) ws)"

definition waiting_branch :: "event \<Rightarrow> session \<Rightarrow> session \<times> out list \<times> bool" where
  "waiting_branch ev s =
     (if ev = ClickStartReading then
        (s\<lparr>tossup_state := Some Reading, word_index := Some 0\<rparr>,
         [Markdown ''_(Ready to read tossup)_''], False)
      else (s, [Markdown ''_(Ready to read tossup)_''], True))"

definition reading_branch :: "real \<Rightarrow> event \<Rightarrow> session \<Rightarrow> session \<times> out list \<times> bool" where
  "reading_branch now ev s =
     (case words s of
        None \<Rightarrow> (s, [Uncaught AttributeError], False)
      | Some ws \<Rightarrow>
          (case word_index s of
             None \<Rightarrow> (s, [Uncaught AttributeError], False)
           | Some i \<Rightarrow>
               if ev = ClickBuzz then
                 (s\<lparr>tossup_state := Some Buzzed\<rparr>, [Markdown (revealed_text ws i)], False)
               else if i < int (length ws) - 1 then
                 (s\<lparr>word_index := Some (i + 1)\<rparr>, [Markdown (revealed_text ws i)], False)
               else
                 (s\<lparr>tossup_state := Some GracePeriod, grace_period_end := Some (now + 5)\<rparr>,
                  [Markdown (revealed_text ws i)], False)))"

definition grace_period_branch ::
  "real \<Rightarrow> event \<Rightarrow> tossup \<Rightarrow> session \<Rightarrow> session \<times> out list \<times> bool" where
  "grace_period_branch now ev q s =
     (case grace_period_end s of
        None \<Rightarrow> (s, [Markdown (question_sanitized q), Uncaught AttributeError], False)
      | Some d \<Rightarrow>
          if d - now > 0 then
            (if ev = ClickBuzz then
               (s\<lparr>tossup_state := Some Buzzed\<rparr>,
                [Markdown (question_sanitized q), TimeToBuzz (d - now)], False)
             else (s, [Markdown (question_sanitized q), TimeToBuzz (d - now)], False))
          else (s\<lparr>tossup_state := Some Over\<rparr>, [Markdown (question_sanitized q)], False))"

definition answer_form ::
  "env \<Rightarrow> event \<Rightarrow> tossup \<Rightarrow> string \<Rightarrow> session \<Rightarrow> session \<times> out list \<times> bool" where
  "answer_form e ev q txt s =
     (case ev of
        SubmitAnswer user_answer \<Rightarrow>
          (case check_answer_sync e q user_answer of
             Inl x \<Rightarrow> (s, [Markdown txt, Uncaught x], False)
           | Inr correct \<Rightarrow>
               (s\<lparr>feedback :=
                    Some (Some (if correct then (''success'', ''Correct!'')
                                else (''error'', ''Incorrect.''))),
                  tossup_state := Some Over\<rparr>, [Markdown txt], False))
      | _ \<Rightarrow> (s, [Markdown txt], True))"

definition buzzed_branch ::
  "env \<Rightarrow> event \<Rightarrow> tossup \<Rightarrow> session \<Rightarrow> session \<times> out list \<times> bool" where
  "buzzed_branch e ev q s =
     (case word_index s of
        None \<Rightarrow> (s, [Uncaught AttributeError], False)
      | Some i \<Rightarrow>
          if i > - 1 then
            (case words s of
               None \<Rightarrow> (s, [Uncaught AttributeError], False)
             | Some ws \<Rightarrow> answer_form e ev q (revealed_text ws i) s)
          else answer_form e ev q [] s)"

definition over_branch :: "tossup \<Rightarrow> session \<Rightarrow> session \<times> out list \<times> bool" where
  "over_branch q s =
     (case feedback s of
        None \<Rightarrow> (s, [Markdown (question_sanitized q), Uncaught AttributeError], False)
      | Some None \<Rightarrow> (s, [Markdown (question_sanitized q), Warning ''Time's up!''], True)
      | Some (Some (kind, msg)) \<Rightarrow>
          (case st_attr kind of
             None \<Rightarrow> (s, [Markdown (question_sanitized q), Uncaught AttributeError], False)
           | Some show_it \<Rightarrow> (s, [Markdown (question_sanitized q), show_it msg], True)))"

definition tossup_branch ::
  "env \<Rightarrow> real \<Rightarrow> event \<Rightarrow> tossup \<Rightarrow> session \<Rightarrow> session \<times> out list \<times> bool" where
  "tossup_branch e now ev q s =
     (case (case tossup_state s of None \<Rightarrow> Waiting | Some t \<Rightarrow> t) of
        Waiting \<Rightarrow> waiting_branch ev s
      | Reading \<Rightarrow> reading_branch now ev s
      | GracePeriod \<Rightarrow> grace_period_branch now ev q s
      | Buzzed \<Rightarrow> buzzed_branch e ev q s
      | Over \<Rightarrow> over_branch q s)"

text \<open>
  The loop over the parts of a bonus: part \<open>i\<close> is shown with the stored answer when
  there is one, with its answer form otherwise, and the loop stops at the first form.
  \<open>given_answers\<close> is \<^verbatim>\<open>st.session_state.get('bonus_answers', [])\<close>.
\<close>

definition given_answers :: "session \<Rightarrow> (bool \<times> string) list" where
  "given_answers s = (case bonus_answers s of None \<Rightarrow> [] | Some xs \<Rightarrow> xs)"

fun bonus_parts ::
  "env \<Rightarrow> event \<Rightarrow> bonus \<Rightarrow> nat \<Rightarrow> string list \<Rightarrow> session \<Rightarrow> session \<times> out list \<times> bool" where
  "bonus_parts e ev q i [] s = (s, [], True)"
| "bonus_parts e ev q i (p # ps) s =
     (let given = given_answers s in
      if length given > i then
        (case given ! i of
           (is_correct, user_ans) \<Rightarrow>
             if is_correct then
               (case bonus_parts e ev q (Suc i) ps s of
                  (s', os, go) \<Rightarrow> (s', Part (Suc i) p # Answered True user_ans # os, go))
             else if i < length (answers q) then
               (case bonus_parts e ev q (Suc i) ps s of
                  (s', os, go) \<Rightarrow>
                    (s', Part (Suc i) p # Answered False user_ans
                         # CorrectAnswer (answers q ! i) # os, go))
             else (s, [Part (Suc i) p, Answered False user_ans, Uncaught IndexError], False))
      else
        (case ev of
           SubmitBonusPart j bonus_answer \<Rightarrow>
             if j = i then
               (if i < length (answers q) then
                  (case check_answer e (answers q ! i) bonus_answer of
                     Inl x \<Rightarrow> (s, [Part (Suc i) p, Uncaught x], False)
                   | Inr correct \<Rightarrow>
                       (s\<lparr>bonus_answers := Some (given @ [(correct, bonus_answer)])\<rparr>,
                        [Part (Suc i) p], False))
                else (s, [Part (Suc i) p, Uncaught IndexError], False))
             else (s, [Part (Suc i) p], True)
         | _ \<Rightarrow> (s, [Part (Suc i) p], True)))"

definition bonus_branch :: "env \<Rightarrow> event \<Rightarrow> bonus \<Rightarrow> session \<Rightarrow> session \<times> out list \<times> bool" where
  "bonus_branch e ev q s =
     (case bonus_parts e ev q 0 (parts q) s of
        (s1, os, go) \<Rightarrow>
          if go \<and> length (given_answers s1) = length (parts q)
          then (s1\<lparr>tossup_state := Some Over\<rparr>, Leadin (leadin q) # os, True)
          else (s1, Leadin (leadin q) # os, go))"

text \<open>
  The button under the review: its callback has already run before the script; when the
  script reaches the button it calls \<^verbatim>\<open>get_new_question\<close> once more.
\<close>

definition next_question_button ::
  "env \<Rightarrow> event \<Rightarrow> out list \<Rightarrow> session \<Rightarrow> session \<times> out list" where
  "next_question_button e ev shown s =
     (if ev = ClickNextQuestion then
        (case get_new_question e s of (s', os) \<Rightarrow> (s', shown @ os))
      else (s, shown))"

text \<open>
  The review section. The explanation panels are \<open>render_explanations\<close>; where they sit
  between the other lines of the review is not modelled.
\<close>

definition review_section :: "env \<Rightarrow> event \<Rightarrow> question \<Rightarrow> session \<Rightarrow> session \<times> out list" where
  "review_section e ev q s =
     (if tossup_state s = Some Over then
        (case q of
           Tossup t \<Rightarrow>
             (case render_explanations e q of
                Some x \<Rightarrow> (s, [ReviewHeader, CorrectAnswer (answer t), Uncaught x])
              | None \<Rightarrow> next_question_button e ev [ReviewHeader, CorrectAnswer (answer t)] s)
         | Bonus b \<Rightarrow>
             (let shown = ReviewHeader #
                    map (\<lambda>i. PartReview (Suc i) (parts b ! i) (answers b ! i))
                      [0 ..< min (length (parts b)) (length (answers b))] in
              if length (answers b) < length (parts b) then (s, shown @ [Uncaught IndexError])
              else
                (case render_explanations e q of
                   Some x \<Rightarrow> (s, shown @ [Uncaught x])
                 | None \<Rightarrow> next_question_button e ev shown s)))
      else (s, []))"

definition trainer_body :: "env \<Rightarrow> real \<Rightarrow> event \<Rightarrow> session \<Rightarrow> session \<times> out list" where
  "trainer_body e now ev s =
     (case question s of
        None \<Rightarrow> (s, [Info ''Click 'Get New Question' in the sidebar to start practicing!''])
      | Some q \<Rightarrow>
          (case (case q of
                   Tossup t \<Rightarrow>
                     (case tossup_branch e now ev t s of
                        (s1, os, go) \<Rightarrow>
                          (s1, QuestionHeader (q_type s) (tossup_set_name t) (tossup_category t) # os,
                           go))
                 | Bonus b \<Rightarrow>
                     (case bonus_branch e ev b s of
                        (s1, os, go) \<Rightarrow>
                          (s1, QuestionHeader (q_type s) (bonus_set_name b) (bonus_category b) # os,
                           go)))
           of
             (s1, os, go) \<Rightarrow>
               if go then (case review_section e ev q s1 of (s2, os2) \<Rightarrow> (s2, os @ os2))
               else (s1, os)))"

text \<open>
  One run: the widget that changed is written to the session state, the callback of a
  clicked button runs, then the script. A button can be clicked only where the script
  showed it; the callback of the button under the review is run here for a click in any
  state, which only adds runs.
\<close>

definition apply_widget :: "event \<Rightarrow> session \<Rightarrow> session" where
  "apply_widget ev s =
     (case ev of
        SetQType t \<Rightarrow> s\<lparr>q_type := t\<rparr>
      | SetCheckbox k b \<Rightarrow>
          s\<lparr>checked := (if b then k # removeAll k (checked s) else removeAll k (checked s))\<rparr>
      | _ \<Rightarrow> s)"

definition on_click :: "env \<Rightarrow> event \<Rightarrow> session \<Rightarrow> session \<times> out list" where
  "on_click e ev s =
     (if ev = ClickGetNewQuestion \<or> ev = ClickNextQuestion then get_new_question e s
      else (s, []))"

definition run :: "env \<Rightarrow> real \<Rightarrow> event \<Rightarrow> session \<Rightarrow> session \<times> out list" where
  "run e now ev s =
     (case on_click e ev (apply_widget ev s) of
        (s1, os1) \<Rightarrow> (case trainer_body e now ev s1 of (s2, os2) \<Rightarrow> (s2, os1 @ os2)))"

text \<open>
  A fresh session: no question, the type selector on its first option, the check boxes
  at their default values, and no other key assigned.
\<close>

definition init :: session where
  "init = \<lparr>question = None, q_type = ''Tossup'',
      checked = ''diff_High School (Regular)'' # map (\<lambda>(name, c). ''cat_'' @ name) category_map,
      words = None, tossup_state = None, word_index = None, feedback = None,
      grace_period_end = None, bonus_answers = None, fetches = 0\<rparr>"

inductive reachable :: "session \<Rightarrow> bool" where
  start: "reachable init"
| step: "reachable s \<Longrightarrow> reachable (fst (run e now ev s))"

text \<open>
  Observers of a session state: a tossup is being read; the callback of the action that
  caused the run changed the session state, which it does exactly when it sent a request
  to the question bank; the request of \<^verbatim>\<open>get_new_question\<close> fails, by an exception of
  the client or by an empty answer.
\<close>

fun is_tossup :: "question option \<Rightarrow> bool" where
  "is_tossup (Some (Tossup t)) = True"
| "is_tossup _ = False"

definition reading_tossup :: "session \<Rightarrow> bool" where
  "reading_tossup s \<longleftrightarrow> is_tossup (question s) \<and> tossup_state s = Some Reading"

definition interrupts :: "env \<Rightarrow> event \<Rightarrow> session \<Rightarrow> bool" where
  "interrupts e ev s \<longleftrightarrow> fst (on_click e ev (apply_widget ev s)) \<noteq> apply_widget ev s"

definition fetch_fails :: "env \<Rightarrow> session \<Rightarrow> bool" where
  "fetch_fails e s \<longleftrightarrow>
     (if q_type s = ''Tossup'' then
        (case random_tossup e (fetches s) (selected_difficulties s) (selected_categories s) of
           Inr (q # qs) \<Rightarrow> False | _ \<Rightarrow> True)
      else
        (case random_bonus e (fetches s) (selected_difficulties s) (selected_categories s) of
           Inr (q # qs) \<Rightarrow> False | _ \<Rightarrow> True))"

section \<open>The question search tab: pagination\<close>













section \<open>The explanation fetcher\<close>

text \<open>
  Values of Python as \<^verbatim>\<open>json\<close> produces them. The HTTP client and the JSON parser
  are parameters: \<open>post\<close> raises or returns the status and the body of the response,
  \<open>parse_json\<close> is \<open>None\<close> on a text that is not JSON.
\<close>

datatype json =
  JNull | JBool bool | JNum real | JStr string | JArr "json list" | JObj "(string \<times> json) list"

record http_env =
  api_key :: "string option"
  post :: "string \<Rightarrow> string \<Rightarrow> exn + nat \<times> string"
  parse_json :: "string \<Rightarrow> json option"

fun is_substring :: "string \<Rightarrow> string \<Rightarrow> bool" where
  "is_substring xs [] = (xs = [])"
| "is_substring xs (y # ys) = (take (length xs) (y # ys) = xs \<or> is_substring xs ys)"

text \<open>\<^verbatim>\<open>k in v\<close>, \<^verbatim>\<open>v[k]\<close> for a string \<open>k\<close>, and \<^verbatim>\<open>v[i]\<close> for an index \<open>i\<close>.\<close>

definition contains_key :: "string \<Rightarrow> json \<Rightarrow> exn + bool" where
  "contains_key k v =
     (case v of
        JObj kvs \<Rightarrow> Inr (k \<in> set (map fst kvs))
      | JArr xs \<Rightarrow> Inr (JStr k \<in> set xs)
      | JStr s \<Rightarrow> Inr (is_substring k s)
      | _ \<Rightarrow> Inl TypeError)"

definition subscript_key :: "json \<Rightarrow> string \<Rightarrow> exn + json" where
  "subscript_key v k =
     (case v of
        JObj kvs \<Rightarrow> (case map_of kvs k of None \<Rightarrow> Inl KeyError | Some x \<Rightarrow> Inr x)
      | _ \<Rightarrow> Inl TypeError)"

definition subscript_int :: "json \<Rightarrow> nat \<Rightarrow> exn + json" where
  "subscript_int v i =
     (case v of
        JArr xs \<Rightarrow> (if i < length xs then Inr (xs ! i) else Inl IndexError)
      | JStr s \<Rightarrow> (if i < length s then Inr (JStr [s ! i]) else Inl IndexError)
      | JObj kvs \<Rightarrow> Inl KeyError
      | _ \<Rightarrow> Inl TypeError)"

definition then_do :: "exn + 'a \<Rightarrow> ('a \<Rightarrow> exn + 'b) \<Rightarrow> exn + 'b" where
  "then_do r f = (case r of Inl x \<Rightarrow> Inl x | Inr v \<Rightarrow> f v)"

text \<open>\<^verbatim>\<open>result["candidates"][0]["content"]["parts"][0]["text"]\<close>\<close>

definition candidate_text :: "json \<Rightarrow> exn + json" where
  "candidate_text result =
     then_do (subscript_key result ''candidates'') (\<lambda>a.
     then_do (subscript_int a 0) (\<lambda>b.
     then_do (subscript_key b ''content'') (\<lambda>c.
     then_do (subscript_key c ''parts'') (\<lambda>d.
     then_do (subscript_int d 0) (\<lambda>f.
     subscript_key f ''text'')))))"

definition json_loads :: "http_env \<Rightarrow> json \<Rightarrow> exn + json" where
  "json_loads h v =
     (case v of
        JStr json_string \<Rightarrow>
          (case parse_json h json_string of None \<Rightarrow> Inl JSONDecodeError | Some r \<Rightarrow> Inr r)
      | _ \<Rightarrow> Inl TypeError)"

definition no_candidates :: json where
  "no_candidates =
     JObj [(''explanation'', JStr ''Sorry, the AI could not provide a structured explanation.''),
           (''image_search_query'', JStr ''error''),
           (''recommended_reading'', JArr [])]"

text \<open>The body of the \<^verbatim>\<open>try\<close> block.\<close>

definition request_explanation :: "http_env \<Rightarrow> string \<Rightarrow> string \<Rightarrow> exn + json" where
  "request_explanation h key prompt =
     (case post h key prompt of
        Inl x \<Rightarrow> Inl x
      | Inr (status, body) \<Rightarrow>
          if 400 \<le> status \<and> status < 600 then Inl (HTTPError status)
          else
            (case parse_json h body of
               None \<Rightarrow> Inl JSONDecodeError
             | Some result \<Rightarrow>
                 then_do (contains_key ''candidates'' result) (\<lambda>found.
                   if found then then_do (candidate_text result) (json_loads h)
                   else Inr no_candidates)))"

text \<open>
  The exceptions of the \<^verbatim>\<open>except\<close> clause: the exceptions of the HTTP library and the
  JSON decoding error.
\<close>

definition is_request_exception :: "exn \<Rightarrow> bool" where
  "is_request_exception x \<longleftrightarrow>
     (case x of ConnectionError m \<Rightarrow> True | HTTPError n \<Rightarrow> True | _ \<Rightarrow> False)"

definition caught :: "exn \<Rightarrow> bool" where
  "caught x \<longleftrightarrow> is_request_exception x \<or> x = JSONDecodeError"

definition get_ai_structured_explanation ::
  "http_env \<Rightarrow> string \<Rightarrow> (exn + json) \<times> out list" where
  "get_ai_structured_explanation h prompt =
     (case api_key h of
        None \<Rightarrow>
          (Inr (JObj []),
           [Error ''Error: GEMINI_API_KEY not found. Please set it in your .env file.''])
      | Some key \<Rightarrow>
          if key = [] then
            (Inr (JObj []),
             [Error ''Error: GEMINI_API_KEY not found. Please set it in your .env file.''])
          else
            (case request_explanation h key prompt of
               Inl x \<Rightarrow>
                 if caught x then
                   (Inr (JObj []),
                    [ErrorExc ''An error occurred while getting the AI explanation: '' x])
                 else (Inl x, [])
             | Inr v \<Rightarrow> (Inr v, [])))"

section \<open>Invariant of the trainer tab\<close>

text \<open>
  What holds of the session state while a tossup is the active question: the words are
  those of its text, the index is \<open>-1\<close> before reading starts and afterwards between
  \<open>0\<close> and the last index (\<open>0\<close> for a text without words), a grace period has its
  deadline, and a verdict is stored only in state \<open>Over\<close>. While a bonus is the
  active question, the list of its answers exists and is no longer than its parts.
\<close>

definition tossup_inv :: "tossup \<Rightarrow> session \<Rightarrow> bool" where
  "tossup_inv t s \<longleftrightarrow>
     words s = Some (py_split (question_sanitized t)) \<and>
     (\<exists>i st. word_index s = Some i \<and> tossup_state s = Some st
        \<and> (st = Waiting \<longrightarrow> i = - 1)
        \<and> (st \<noteq> Waiting \<longrightarrow>
             0 \<le> i \<and> i \<le> max 0 (int (length (py_split (question_sanitized t))) - 1))
        \<and> (st = GracePeriod \<longrightarrow> grace_period_end s \<noteq> None)
        \<and> (st \<noteq> Over \<longrightarrow> feedback s = Some None)
        \<and> (feedback s = Some None \<or> feedback s = Some (Some (''success'', ''Correct!''))
             \<or> feedback s = Some (Some (''error'', ''Incorrect.''))))"

definition bonus_inv :: "bonus \<Rightarrow> session \<Rightarrow> bool" where
  "bonus_inv b s \<longleftrightarrow>
     (case bonus_answers s of None \<Rightarrow> False | Some xs \<Rightarrow> length xs \<le> length (parts b))"

definition inv :: "session \<Rightarrow> bool" where
  "inv s \<longleftrightarrow>
     (case question s of
        None \<Rightarrow> True
      | Some (Tossup t) \<Rightarrow> tossup_inv t s
      | Some (Bonus b) \<Rightarrow> bonus_inv b s)"

section \<open>Sample questions, services and sessions\<close>

definition sample_tossup :: tossup where
  "sample_tossup =
     \<lparr>question_sanitized = ''This poet wrote Endymion'', answer = ''John Keats'',
      answer_sanitized = ''Keats'', tossup_set_name = ''Set A'', tossup_category = ''Literature''\<rparr>"

definition blank_tossup :: tossup where
  "blank_tossup =
     \<lparr>question_sanitized = [], answer = ''John Keats'',
      answer_sanitized = ''Keats'', tossup_set_name = ''Set A'', tossup_category = ''Literature''\<rparr>"

definition sample_bonus :: bonus where
  "sample_bonus =
     \<lparr>leadin = ''Name these capitals'', parts = [''France'', ''Italy'', ''Germany''],
      answers = [''Paris'', ''Rome'', ''Berlin''], bonus_set_name = ''Set A'',
      bonus_category = ''Geography''\<rparr>"

text \<open>
  A question bank that always answers with the same tossup or the same bonus, and a
  judge that accepts exactly the expected text.
\<close>

definition bank_of :: "tossup \<Rightarrow> bonus \<Rightarrow> env" where
  "bank_of t b =
     \<lparr>random_tossup = (\<lambda>n ds cs. Inr [t]), random_bonus = (\<lambda>n ds cs. Inr [b]),
      check_answer_sync = (\<lambda>q a. Inr (a = answer_sanitized q)),
      check_answer = (\<lambda>expected a. Inr (a = expected)),
      render_explanations = (\<lambda>q. None)\<rparr>"

definition sample_env :: env where
  "sample_env = bank_of sample_tossup sample_bonus"

definition blank_env :: env where
  "blank_env = bank_of blank_tossup sample_bonus"

text \<open>The sessions after a tossup was fetched, and after reading was started.\<close>

definition sample_waiting :: session where
  "sample_waiting = fst (run sample_env 0 ClickGetNewQuestion init)"

definition sample_reading :: session where
  "sample_reading = fst (run sample_env 1 ClickStartReading sample_waiting)"

definition blank_reading :: session where
  "blank_reading =
     fst (run blank_env 1 ClickStartReading (fst (run blank_env 0 ClickGetNewQuestion init)))"

text \<open>
  The same tossup at its last word, in the grace period (entered at time \<open>5\<close>), after
  a buzz, after a correct answer, and after the grace period ran out.
\<close>

definition sample_last :: session where
  "sample_last =
     fst (run sample_env 4 Rerun (fst (run sample_env 3 Rerun
       (fst (run sample_env 2 Rerun sample_reading)))))"

definition sample_grace :: session where
  "sample_grace = fst (run sample_env 5 Rerun sample_last)"

definition sample_buzzed :: session where
  "sample_buzzed = fst (run sample_env 6 ClickBuzz sample_grace)"

definition sample_over :: session where
  "sample_over = fst (run sample_env 7 (SubmitAnswer ''Keats'') sample_buzzed)"

definition sample_timed_out :: session where
  "sample_timed_out = fst (run sample_env 10 Rerun sample_grace)"

text \<open>
  A question bank without a match and with a failing bonus request; and one whose
  \<open>n\<close>-th answer is marked with \<open>n\<close>, to tell the requests apart.
\<close>

definition empty_bank :: env where
  "empty_bank =
     \<lparr>random_tossup = (\<lambda>n ds cs. Inr []),
      random_bonus = (\<lambda>n ds cs. Inl (ConnectionError ''timed out'')),
      check_answer_sync = (\<lambda>q a. Inr (a = answer_sanitized q)),
      check_answer = (\<lambda>expected a. Inr (a = expected)),
      render_explanations = (\<lambda>q. None)\<rparr>"

definition numbered_bank :: env where
  "numbered_bank =
     \<lparr>random_tossup = (\<lambda>n ds cs. Inr [sample_tossup\<lparr>answer := replicate n CHR ''x''\<rparr>]),
      random_bonus = (\<lambda>n ds cs. Inr [sample_bonus\<lparr>leadin := replicate n CHR ''x''\<rparr>]),
      check_answer_sync = (\<lambda>q a. Inr (a = answer_sanitized q)),
      check_answer = (\<lambda>expected a. Inr (a = expected)),
      render_explanations = (\<lambda>q. None)\<rparr>"

text \<open>
  A session in which a bonus is fetched and its three parts are answered; the next run
  opens the review; then the button under the review is pressed.
\<close>

definition bonus_fetched :: session where
  "bonus_fetched =
     fst (run sample_env 1 ClickGetNewQuestion (fst (run sample_env 0 (SetQType ''Bonus'') init)))"

definition bonus_answered :: session where
  "bonus_answered =
     fst (run sample_env 4 (SubmitBonusPart 2 ''Berlin'')
       (fst (run sample_env 3 (SubmitBonusPart 1 ''Madrid'')
         (fst (run sample_env 2 (SubmitBonusPart 0 ''Paris'') bonus_fetched)))))"

definition bonus_review :: session where
  "bonus_review = fst (run sample_env 5 Rerun bonus_answered)"

definition bonus_next :: session where
  "bonus_next = fst (run sample_env 6 ClickNextQuestion bonus_review)"

text \<open>The reviewed tossup, with only a difficulty ticked and no category.\<close>

definition sample_over_unticked :: session where
  "sample_over_unticked = sample_over\<lparr>checked := [''diff_Middle School'']\<rparr>"





text \<open>
  A configured key with an endpoint that answers \<open>200\<close> with a body that is not JSON,
  and one whose body is JSON with an empty list of candidates.
\<close>

definition malformed_endpoint :: http_env where
  "malformed_endpoint =
     \<lparr>api_key = Some ''k'', post = (\<lambda>key prompt. Inr (200, ''{not json'')),
      parse_json = (\<lambda>body. None)\<rparr>"

definition no_candidate_endpoint :: http_env where
  "no_candidate_endpoint =
     \<lparr>api_key = Some ''k'', post = (\<lambda>key prompt. Inr (200, ''{candidates: []}'')),
      parse_json = (\<lambda>body. Some (JObj [(''candidates'', JArr [])]))\<rparr>"

section \<open>The invariant holds in every reachable state\<close>

lemma is_tossup_iff: "is_tossup q \<longleftrightarrow> (\<exists>t. q = Some (Tossup t))"
  by (cases q rule: is_tossup.cases) simp_all

lemma inv_init: "inv init"
  by (simp add: inv_def init_def)

lemma fst_fetch_failed: "fst (fetch_failed x s) = s\<lparr>question := None\<rparr>"
  by (simp add: fetch_failed_def)

lemma inv_fetch_failed: "inv (fst (fetch_failed x s))"
  by (simp add: inv_def fst_fetch_failed)

lemma get_new_question_cases:
  "get_new_question e s = (s, [Error ''Please select at least one difficulty and one category.''])
   \<or> (\<exists>x. get_new_question e s = fetch_failed x (s\<lparr>fetches := Suc (fetches s)\<rparr>))
   \<or> (\<exists>q. get_new_question e s =
         (s\<lparr>fetches := Suc (fetches s), words := Some (py_split (question_sanitized q)),
            tossup_state := Some Waiting, question := Some (Tossup q),
            word_index := Some (- 1), feedback := Some None\<rparr>, []))
   \<or> (\<exists>q. get_new_question e s =
         (s\<lparr>fetches := Suc (fetches s), bonus_answers := Some [], question := Some (Bonus q),
            word_index := Some (- 1), feedback := Some None\<rparr>, []))"
  unfolding get_new_question_def
  by (simp split: sum.split list.split) blast

lemma inv_get_new_question:
  assumes "inv s" shows "inv (fst (get_new_question e s))"
  using get_new_question_cases [of e s]
proof (elim disjE exE)
  assume "get_new_question e s =
    (s, [Error ''Please select at least one difficulty and one category.''])"
  with assms show ?thesis by simp
next
  fix x assume "get_new_question e s = fetch_failed x (s\<lparr>fetches := Suc (fetches s)\<rparr>)"
  then show ?thesis by (simp add: inv_fetch_failed)
next
  fix q assume "get_new_question e s =
         (s\<lparr>fetches := Suc (fetches s), words := Some (py_split (question_sanitized q)),
            tossup_state := Some Waiting, question := Some (Tossup q),
            word_index := Some (- 1), feedback := Some None\<rparr>, [])"
  then show ?thesis by (simp add: inv_def tossup_inv_def)
next
  fix q assume "get_new_question e s =
         (s\<lparr>fetches := Suc (fetches s), bonus_answers := Some [], question := Some (Bonus q),
            word_index := Some (- 1), feedback := Some None\<rparr>, [])"
  then show ?thesis by (simp add: inv_def bonus_inv_def)
qed

lemma question_answer_form: "question (fst (answer_form e ev t shown s)) = question s"
  by (simp add: answer_form_def split: event.split sum.split)

lemma question_tossup_branch: "question (fst (tossup_branch e now ev t s)) = question s"
proof -
  have 1: "question (fst (waiting_branch ev s)) = question s"
    by (simp add: waiting_branch_def)
  have 2: "question (fst (reading_branch now ev s)) = question s"
    by (simp add: reading_branch_def split: option.split)
  have 3: "question (fst (grace_period_branch now ev t s)) = question s"
    by (simp add: grace_period_branch_def split: option.split)
  have 4: "question (fst (buzzed_branch e ev t s)) = question s"
    by (simp add: buzzed_branch_def question_answer_form split: option.split)
  have 5: "question (fst (over_branch t s)) = question s"
    by (simp add: over_branch_def split: option.split prod.split)
  show ?thesis
    by (simp add: tossup_branch_def 1 2 3 4 5 split: tstate.split)
qed

lemma inv_tossup_branch:
  assumes "tossup_inv t s"
  shows "tossup_inv t (fst (tossup_branch e now ev t s))"
proof -
  from assms obtain i st where w: "words s = Some (py_split (question_sanitized t))"
    and i: "word_index s = Some i" and st: "tossup_state s = Some st"
    by (auto simp: tossup_inv_def)
  show ?thesis
  proof (cases st)
    case Waiting
    with assms st i show ?thesis
      by (simp add: tossup_branch_def waiting_branch_def tossup_inv_def)
  next
    case Reading
    with assms st i w show ?thesis
      by (simp add: tossup_branch_def reading_branch_def tossup_inv_def)
  next
    case GracePeriod
    with assms st i obtain d where "grace_period_end s = Some d"
      by (auto simp: tossup_inv_def)
    with GracePeriod assms st i show ?thesis
      by (simp add: tossup_branch_def grace_period_branch_def tossup_inv_def)
  next
    case Buzzed
    with assms st i w show ?thesis
      by (simp add: tossup_branch_def buzzed_branch_def answer_form_def tossup_inv_def
          split: event.split sum.split)
  next
    case Over
    with assms st show ?thesis
      by (simp add: tossup_branch_def over_branch_def split: option.split prod.split)
  qed
qed

text \<open>
  The loop over the parts changes the session state only by appending the judged answer
  of the first part that has none.
\<close>

lemma bonus_parts_cases:
  "i \<le> length (given_answers s) \<Longrightarrow>
   fst (bonus_parts e ev q i ps s) = s \<or>
   (\<exists>a c. ev = SubmitBonusPart (length (given_answers s)) a
      \<and> length (given_answers s) < i + length ps
      \<and> length (given_answers s) < length (answers q)
      \<and> check_answer e (answers q ! length (given_answers s)) a = Inr c
      \<and> fst (bonus_parts e ev q i ps s) =
          s\<lparr>bonus_answers := Some (given_answers s @ [(c, a)])\<rparr>)"
proof (induction ps arbitrary: i)
  case Nil
  then show ?case by simp
next
  case (Cons p ps)
  show ?case
  proof (cases "length (given_answers s) > i")
    case True
    then have "Suc i \<le> length (given_answers s)" by simp
    from Cons.IH [OF this] True show ?thesis
      by (auto simp: Let_def split: prod.split)
  next
    case False
    with Cons.prems have "length (given_answers s) = i" by simp
    then show ?thesis
      by (auto simp: Let_def split: event.split sum.split)
  qed
qed

lemma bonus_branch_cases:
  "\<exists>s1. (s1 = s \<or>
      (\<exists>a c. ev = SubmitBonusPart (length (given_answers s)) a
         \<and> length (given_answers s) < length (parts q)
         \<and> length (given_answers s) < length (answers q)
         \<and> check_answer e (answers q ! length (given_answers s)) a = Inr c
         \<and> s1 = s\<lparr>bonus_answers := Some (given_answers s @ [(c, a)])\<rparr>))
    \<and> (fst (bonus_branch e ev q s) = s1
       \<or> length (given_answers s1) = length (parts q)
         \<and> fst (bonus_branch e ev q s) = s1\<lparr>tossup_state := Some Over\<rparr>)"
proof -
  have "0 \<le> length (given_answers s)" by simp
  from bonus_parts_cases [OF this, of e ev q "parts q"]
  show ?thesis
    by (auto simp: bonus_branch_def split: prod.split)
qed

lemma question_bonus_branch: "question (fst (bonus_branch e ev q s)) = question s"
  using bonus_branch_cases [where ev = ev and s = s and q = q and e = e] by auto

lemma inv_bonus_branch:
  assumes "bonus_inv b s"
  shows "bonus_inv b (fst (bonus_branch e ev b s))"
  using bonus_branch_cases [where ev = ev and s = s and q = b and e = e] assms
  by (auto simp: bonus_inv_def given_answers_def split: option.splits)

lemma next_question_button_cases:
  "fst (next_question_button e ev shown s) = s
   \<or> ev = ClickNextQuestion \<and> fst (next_question_button e ev shown s) = fst (get_new_question e s)"
  by (simp add: next_question_button_def split: prod.split)

lemma review_section_cases:
  "fst (review_section e ev q s) = s
   \<or> ev = ClickNextQuestion \<and> tossup_state s = Some Over \<and> render_explanations e q = None
     \<and> fst (review_section e ev q s) = fst (get_new_question e s)"
  using next_question_button_cases [of e ev _ s]
  by (auto simp: review_section_def Let_def split: question.split option.split)

lemma inv_review_section: "inv s \<Longrightarrow> inv (fst (review_section e ev q s))"
  using review_section_cases [of e ev q s] by (auto simp: inv_get_new_question)

lemma trainer_body_None:
  "question s = None \<Longrightarrow>
   trainer_body e now ev s =
     (s, [Info ''Click 'Get New Question' in the sidebar to start practicing!''])"
  by (simp add: trainer_body_def)

lemma trainer_body_Tossup:
  "question s = Some (Tossup t) \<Longrightarrow>
   fst (trainer_body e now ev s) =
     (if snd (snd (tossup_branch e now ev t s))
      then fst (review_section e ev (Tossup t) (fst (tossup_branch e now ev t s)))
      else fst (tossup_branch e now ev t s))"
  by (simp add: trainer_body_def split: prod.split)

lemma trainer_body_Bonus:
  "question s = Some (Bonus b) \<Longrightarrow>
   fst (trainer_body e now ev s) =
     (if snd (snd (bonus_branch e ev b s))
      then fst (review_section e ev (Bonus b) (fst (bonus_branch e ev b s)))
      else fst (bonus_branch e ev b s))"
  by (simp add: trainer_body_def split: prod.split)

lemma inv_trainer_body:
  assumes "inv s" shows "inv (fst (trainer_body e now ev s))"
proof (cases "question s")
  case None
  with assms show ?thesis by (simp add: trainer_body_None)
next
  case (Some q)
  show ?thesis
  proof (cases q)
    case (Tossup t)
    with Some assms have "tossup_inv t s" by (simp add: inv_def)
    then have "tossup_inv t (fst (tossup_branch e now ev t s))" by (rule inv_tossup_branch)
    then have "inv (fst (tossup_branch e now ev t s))"
      using Some Tossup by (simp add: inv_def question_tossup_branch)
    then show ?thesis using Some Tossup
      by (simp add: trainer_body_Tossup inv_review_section)
  next
    case (Bonus b)
    with Some assms have "bonus_inv b s" by (simp add: inv_def)
    then have "bonus_inv b (fst (bonus_branch e ev b s))" by (rule inv_bonus_branch)
    then have "inv (fst (bonus_branch e ev b s))"
      using Some Bonus by (simp add: inv_def question_bonus_branch)
    then show ?thesis using Some Bonus
      by (simp add: trainer_body_Bonus inv_review_section)
  qed
qed

lemma inv_apply_widget: "inv s \<Longrightarrow> inv (apply_widget ev s)"
  by (cases ev)
    (auto simp add: apply_widget_def inv_def tossup_inv_def bonus_inv_def
      split: option.splits question.splits)

lemma inv_on_click: "inv s \<Longrightarrow> inv (fst (on_click e ev s))"
  by (simp add: on_click_def inv_get_new_question)

lemma fst_run:
  "fst (run e now ev s) = fst (trainer_body e now ev (fst (on_click e ev (apply_widget ev s))))"
  by (simp add: run_def case_prod_unfold)

lemma inv_run: "inv s \<Longrightarrow> inv (fst (run e now ev s))"
  unfolding fst_run by (intro inv_trainer_body inv_on_click inv_apply_widget)

lemma reachable_inv: "reachable s \<Longrightarrow> inv s"
  by (induction rule: reachable.induct) (simp_all add: inv_init inv_run)

section \<open>Requests for a new question\<close>

lemma selected_update:
  "selected_difficulties (s\<lparr>question := q\<rparr>) = selected_difficulties s"
  "selected_difficulties (s\<lparr>words := w\<rparr>) = selected_difficulties s"
  "selected_difficulties (s\<lparr>tossup_state := st\<rparr>) = selected_difficulties s"
  "selected_difficulties (s\<lparr>word_index := i\<rparr>) = selected_difficulties s"
  "selected_difficulties (s\<lparr>feedback := f\<rparr>) = selected_difficulties s"
  "selected_difficulties (s\<lparr>grace_period_end := g\<rparr>) = selected_difficulties s"
  "selected_difficulties (s\<lparr>bonus_answers := b\<rparr>) = selected_difficulties s"
  "selected_difficulties (s\<lparr>fetches := n\<rparr>) = selected_difficulties s"
  "selected_difficulties (s\<lparr>q_type := ty\<rparr>) = selected_difficulties s"
  "selected_categories (s\<lparr>question := q\<rparr>) = selected_categories s"
  "selected_categories (s\<lparr>words := w\<rparr>) = selected_categories s"
  "selected_categories (s\<lparr>tossup_state := st\<rparr>) = selected_categories s"
  "selected_categories (s\<lparr>word_index := i\<rparr>) = selected_categories s"
  "selected_categories (s\<lparr>feedback := f\<rparr>) = selected_categories s"
  "selected_categories (s\<lparr>grace_period_end := g\<rparr>) = selected_categories s"
  "selected_categories (s\<lparr>bonus_answers := b\<rparr>) = selected_categories s"
  "selected_categories (s\<lparr>fetches := n\<rparr>) = selected_categories s"
  "selected_categories (s\<lparr>q_type := ty\<rparr>) = selected_categories s"
  by (simp_all add: selected_difficulties_def selected_categories_def)

lemma fetches_fetch_failed: "fetches (fst (fetch_failed x s)) = fetches s"
  by (simp add: fst_fetch_failed)

lemma fetches_get_new_question:
  "fetches (fst (get_new_question e s)) =
     (if selected_difficulties s = [] \<or> selected_categories s = [] then fetches s
      else Suc (fetches s))"
  by (simp add: get_new_question_def fetches_fetch_failed split: sum.split list.split)

lemma get_new_question_unchanged:
  "fst (get_new_question e s) = s \<longleftrightarrow>
     selected_difficulties s = [] \<or> selected_categories s = []"
proof
  assume "fst (get_new_question e s) = s"
  then have "fetches (fst (get_new_question e s)) = fetches s" by simp
  then show "selected_difficulties s = [] \<or> selected_categories s = []"
    by (simp add: fetches_get_new_question split: if_splits)
next
  assume "selected_difficulties s = [] \<or> selected_categories s = []"
  then show "fst (get_new_question e s) = s" by (auto simp: get_new_question_def)
qed

text \<open>A run interrupts exactly when a question button was clicked with a valid selection.\<close>

lemma interrupts_iff:
  "interrupts e ev s \<longleftrightarrow>
     (ev = ClickGetNewQuestion \<or> ev = ClickNextQuestion)
     \<and> selected_difficulties s \<noteq> [] \<and> selected_categories s \<noteq> []"
  by (cases ev)
    (simp_all add: interrupts_def on_click_def get_new_question_unchanged apply_widget_def
      selected_update)

lemma given_answers_update:
  "given_answers (s\<lparr>bonus_answers := Some xs\<rparr>) = xs"
  "given_answers (s\<lparr>tossup_state := st\<rparr>) = given_answers s"
  by (simp_all add: given_answers_def)

section \<open>Evaluating runs on the sample sessions\<close>

lemma selected_init:
  "selected_difficulties init = [HS_REGS]"
  "selected_categories init = map snd category_map"
  by (simp_all add: selected_difficulties_def selected_categories_def difficulty_map_def
      category_map_def init_def)

lemma init_fields:
  "question init = None" "q_type init = ''Tossup''" "fetches init = 0"
  "tossup_state init = None" "words init = None" "word_index init = None"
  "feedback init = None" "grace_period_end init = None" "bonus_answers init = None"
  by (simp_all add: init_def)

lemmas run_defs =
  run_def on_click_def apply_widget_def get_new_question_def trainer_body_def
  tossup_branch_def waiting_branch_def reading_branch_def grace_period_branch_def
  buzzed_branch_def answer_form_def over_branch_def review_section_def
  next_question_button_def

lemma sample_words:
  "py_split (question_sanitized sample_tossup) = [''This'', ''poet'', ''wrote'', ''Endymion'']"
  by (simp add: py_split_def is_space_def sample_tossup_def)

lemma sample_waiting_eq:
  "sample_waiting =
     init\<lparr>fetches := 1, words := Some [''This'', ''poet'', ''wrote'', ''Endymion''],
       tossup_state := Some Waiting, question := Some (Tossup sample_tossup),
       word_index := Some (- 1), feedback := Some None\<rparr>"
  by (simp add: sample_waiting_def run_defs selected_init init_fields category_map_def
      sample_env_def bank_of_def sample_words)

lemma sample_reading_eq:
  "sample_reading =
     init\<lparr>fetches := 1, words := Some [''This'', ''poet'', ''wrote'', ''Endymion''],
       tossup_state := Some Reading, question := Some (Tossup sample_tossup),
       word_index := Some 0, feedback := Some None\<rparr>"
  by (simp add: sample_reading_def sample_waiting_eq run_defs)

lemma sample_reading_next:
  "fst (run sample_env 2 Rerun sample_reading) =
     init\<lparr>fetches := 1, words := Some [''This'', ''poet'', ''wrote'', ''Endymion''],
       tossup_state := Some Reading, question := Some (Tossup sample_tossup),
       word_index := Some 1, feedback := Some None\<rparr>"
  by (simp add: sample_reading_eq run_defs)

lemma blank_reading_eq:
  "blank_reading =
     init\<lparr>fetches := 1, words := Some [],
       tossup_state := Some Reading, question := Some (Tossup blank_tossup),
       word_index := Some 0, feedback := Some None\<rparr>"
  by (simp add: blank_reading_def run_defs selected_init init_fields category_map_def
      blank_env_def bank_of_def py_split_def blank_tossup_def)

lemma reachable_sample_waiting: "reachable sample_waiting"
  unfolding sample_waiting_def by (intro reachable.step reachable.start)

lemma reachable_sample_reading: "reachable sample_reading"
  unfolding sample_reading_def by (intro reachable.step reachable_sample_waiting)

lemma reachable_blank_reading: "reachable blank_reading"
  unfolding blank_reading_def by (intro reachable.step reachable.start)

lemma sample_last_eq:
  "sample_last =
     init\<lparr>fetches := 1, words := Some [''This'', ''poet'', ''wrote'', ''Endymion''],
       tossup_state := Some Reading, question := Some (Tossup sample_tossup),
       word_index := Some 3, feedback := Some None\<rparr>"
  by (simp add: sample_last_def sample_reading_eq run_defs)

lemma sample_grace_eq:
  "sample_grace =
     init\<lparr>fetches := 1, words := Some [''This'', ''poet'', ''wrote'', ''Endymion''],
       tossup_state := Some GracePeriod, question := Some (Tossup sample_tossup),
       word_index := Some 3, feedback := Some None, grace_period_end := Some 10\<rparr>"
  by (simp add: sample_grace_def sample_last_eq run_defs)

lemma sample_buzzed_eq:
  "sample_buzzed =
     init\<lparr>fetches := 1, words := Some [''This'', ''poet'', ''wrote'', ''Endymion''],
       tossup_state := Some Buzzed, question := Some (Tossup sample_tossup),
       word_index := Some 3, feedback := Some None, grace_period_end := Some 10\<rparr>"
  by (simp add: sample_buzzed_def sample_grace_eq run_defs)

lemma sample_over_eq:
  "sample_over =
     init\<lparr>fetches := 1, words := Some [''This'', ''poet'', ''wrote'', ''Endymion''],
       tossup_state := Some Over, question := Some (Tossup sample_tossup),
       word_index := Some 3, feedback := Some (Some (''success'', ''Correct!'')),
       grace_period_end := Some 10\<rparr>"
  by (simp add: sample_over_def sample_buzzed_eq run_defs sample_env_def bank_of_def
      sample_tossup_def)

lemma sample_timed_out_eq:
  "sample_timed_out =
     init\<lparr>fetches := 1, words := Some [''This'', ''poet'', ''wrote'', ''Endymion''],
       tossup_state := Some Over, question := Some (Tossup sample_tossup),
       word_index := Some 3, feedback := Some None, grace_period_end := Some 10\<rparr>"
  by (simp add: sample_timed_out_def sample_grace_eq run_defs)

lemma reachable_sample_last: "reachable sample_last"
  unfolding sample_last_def by (intro reachable.step reachable_sample_reading)

lemma reachable_sample_grace: "reachable sample_grace"
  unfolding sample_grace_def by (intro reachable.step reachable_sample_last)

lemma reachable_sample_buzzed: "reachable sample_buzzed"
  unfolding sample_buzzed_def by (intro reachable.step reachable_sample_grace)

lemma reachable_sample_over: "reachable sample_over"
  unfolding sample_over_def by (intro reachable.step reachable_sample_buzzed)

lemma reachable_sample_timed_out: "reachable sample_timed_out"
  unfolding sample_timed_out_def by (intro reachable.step reachable_sample_grace)

lemmas bonus_defs = bonus_branch_def given_answers_def Let_def

lemma sample_bonus_fields:
  "parts sample_bonus = [''France'', ''Italy'', ''Germany'']"
  "answers sample_bonus = [''Paris'', ''Rome'', ''Berlin'']"
  by (simp_all add: sample_bonus_def)

lemma bonus_fetched_eq:
  "bonus_fetched =
     init\<lparr>q_type := ''Bonus'', fetches := 1, bonus_answers := Some [],
       question := Some (Bonus sample_bonus), word_index := Some (- 1), feedback := Some None\<rparr>"
  by (simp add: bonus_fetched_def run_defs selected_init selected_update init_fields
      category_map_def sample_env_def bank_of_def bonus_defs sample_bonus_fields)

lemma bonus_answered_eq:
  "bonus_answered =
     init\<lparr>q_type := ''Bonus'', fetches := 1,
       bonus_answers := Some [(True, ''Paris''), (False, ''Madrid''), (True, ''Berlin'')],
       question := Some (Bonus sample_bonus), word_index := Some (- 1), feedback := Some None\<rparr>"
  by (simp add: bonus_answered_def bonus_fetched_eq run_defs init_fields
      sample_env_def bank_of_def bonus_defs sample_bonus_fields)

lemma bonus_review_eq:
  "bonus_review =
     init\<lparr>q_type := ''Bonus'', fetches := 1,
       bonus_answers := Some [(True, ''Paris''), (False, ''Madrid''), (True, ''Berlin'')],
       question := Some (Bonus sample_bonus), word_index := Some (- 1), feedback := Some None,
       tossup_state := Some Over\<rparr>"
  by (simp add: bonus_review_def bonus_answered_eq run_defs init_fields
      sample_env_def bank_of_def bonus_defs sample_bonus_fields)

lemma bonus_next_eq:
  "bonus_next =
     init\<lparr>q_type := ''Bonus'', fetches := 3,
       bonus_answers := Some [],
       question := Some (Bonus sample_bonus), word_index := Some (- 1), feedback := Some None,
       tossup_state := Some Over\<rparr>"
  by (simp add: bonus_next_def bonus_review_eq run_defs selected_init selected_update init_fields
      category_map_def sample_env_def bank_of_def bonus_defs sample_bonus_fields)

lemma reachable_bonus_fetched: "reachable bonus_fetched"
  unfolding bonus_fetched_def by (intro reachable.step reachable.start)

lemma reachable_bonus_answered: "reachable bonus_answered"
  unfolding bonus_answered_def by (intro reachable.step reachable_bonus_fetched)

lemma reachable_bonus_review: "reachable bonus_review"
  unfolding bonus_review_def by (intro reachable.step reachable_bonus_answered)

lemma reachable_bonus_next: "reachable bonus_next"
  unfolding bonus_next_def by (intro reachable.step reachable_bonus_review)

section \<open>The word index while a tossup is read\<close>

lemma get_new_question_reading:
  "reading_tossup (fst (get_new_question e s)) \<Longrightarrow> fst (get_new_question e s) = s"
  using get_new_question_cases [of e s]
  by (auto simp: reading_tossup_def fst_fetch_failed)

lemma on_click_reading:
  "reading_tossup (fst (on_click e ev s)) \<Longrightarrow> fst (on_click e ev s) = s"
  by (simp add: on_click_def get_new_question_reading split: if_splits)

lemma review_section_reading:
  "reading_tossup (fst (review_section e ev q s)) \<Longrightarrow> fst (review_section e ev q s) = s"
  using review_section_cases [of e ev q s] by (auto simp: get_new_question_reading)

lemma tossup_branch_reading:
  assumes "tossup_inv t s" and "tossup_state (fst (tossup_branch e now ev t s)) = Some Reading"
  shows "(tossup_state s = Some Reading \<and> ev \<noteq> ClickBuzz
            \<and> (\<exists>i ws. word_index s = Some i \<and> words s = Some ws \<and> i < int (length ws) - 1
                  \<and> tossup_branch e now ev t s =
                      (s\<lparr>word_index := Some (i + 1)\<rparr>, [Markdown (revealed_text ws i)], False)))
       \<or> (tossup_state s = Some Waiting \<and> ev = ClickStartReading
            \<and> tossup_branch e now ev t s =
                (s\<lparr>tossup_state := Some Reading, word_index := Some 0\<rparr>,
                 [Markdown ''_(Ready to read tossup)_''], False))"
proof -
  from assms(1) obtain i st where w: "words s = Some (py_split (question_sanitized t))"
    and i: "word_index s = Some i" and st: "tossup_state s = Some st"
    by (auto simp: tossup_inv_def)
  show ?thesis
  proof (cases st)
    case Waiting
    with assms(2) st show ?thesis
      by (simp add: tossup_branch_def waiting_branch_def split: if_splits)
  next
    case Reading
    with assms(2) st i w show ?thesis
      by (simp add: tossup_branch_def reading_branch_def split: if_splits)
  next
    case GracePeriod
    with assms(1) st obtain d where "grace_period_end s = Some d"
      by (auto simp: tossup_inv_def)
    with GracePeriod assms(2) st show ?thesis
      by (simp add: tossup_branch_def grace_period_branch_def split: if_splits)
  next
    case Buzzed
    with assms(2) st i w show ?thesis
      by (simp add: tossup_branch_def buzzed_branch_def answer_form_def
          split: if_splits event.splits sum.splits)
  next
    case Over
    with assms(2) st show ?thesis
      by (simp add: tossup_branch_def over_branch_def split: option.splits prod.splits)
  qed
qed

lemma trainer_body_reading:
  assumes "inv s" and "reading_tossup (fst (trainer_body e now ev s))"
  shows "(reading_tossup s \<and> ev \<noteq> ClickBuzz
            \<and> (\<exists>i ws. word_index s = Some i \<and> words s = Some ws \<and> i < int (length ws) - 1
                  \<and> fst (trainer_body e now ev s) = s\<lparr>word_index := Some (i + 1)\<rparr>))
       \<or> (\<not> reading_tossup s \<and> ev = ClickStartReading
            \<and> fst (trainer_body e now ev s) = s\<lparr>tossup_state := Some Reading, word_index := Some 0\<rparr>)"
proof (cases "question s")
  case None
  with assms(2) show ?thesis by (simp add: trainer_body_None reading_tossup_def)
next
  case (Some q)
  show ?thesis
  proof (cases q)
    case (Bonus b)
    let ?B = "fst (bonus_branch e ev b s)"
    have nb: "\<not> reading_tossup ?B"
      using Some Bonus by (simp add: reading_tossup_def question_bonus_branch)
    have "fst (trainer_body e now ev s) = ?B"
      using assms(2) Some Bonus nb review_section_reading [of e ev "Bonus b" ?B]
      by (auto simp: trainer_body_Bonus split: if_splits)
    with assms(2) nb show ?thesis by simp
  next
    case (Tossup t)
    let ?T = "fst (tossup_branch e now ev t s)"
    have tb: "fst (trainer_body e now ev s) = ?T"
      using assms(2) Some Tossup review_section_reading [of e ev "Tossup t" ?T]
      by (auto simp: trainer_body_Tossup split: if_splits)
    with assms(2) have "tossup_state ?T = Some Reading"
      by (simp add: reading_tossup_def)
    moreover from assms(1) Some Tossup have "tossup_inv t s" by (simp add: inv_def)
    ultimately show ?thesis
      using tossup_branch_reading [of t s e now ev] tb Some Tossup
      by (auto simp: reading_tossup_def)
  qed
qed


lemma apply_widget_fields:
  "question (apply_widget ev s) = question s"
  "tossup_state (apply_widget ev s) = tossup_state s"
  "words (apply_widget ev s) = words s"
  "word_index (apply_widget ev s) = word_index s"
  "feedback (apply_widget ev s) = feedback s"
  "grace_period_end (apply_widget ev s) = grace_period_end s"
  "bonus_answers (apply_widget ev s) = bonus_answers s"
  "fetches (apply_widget ev s) = fetches s"
  by (cases ev; simp add: apply_widget_def)+

lemma reading_tossup_apply_widget: "reading_tossup (apply_widget ev s) = reading_tossup s"
  by (simp add: reading_tossup_def apply_widget_fields)

lemma reading_tossupD:
  "reading_tossup s \<Longrightarrow> \<exists>t. question s = Some (Tossup t) \<and> tossup_state s = Some Reading"
  by (simp add: reading_tossup_def is_tossup_iff)

text \<open>
  Claim C1, as the script has it. In every reachable session state in which a tossup is
  being read, the word index lies between \<open>0\<close> and the last index of the words, where
  the last index counts as \<open>0\<close> for a tossup whose text has no word. When a run ends
  with a tossup being read, either it was being read before, its index was strictly below
  the last index and the run added exactly one to it, leaving words and question as they
  were, or reading has just started and the index is \<open>0\<close>.
\<close>

theorem reading_word_index:
  assumes "reachable s"
  shows "(reading_tossup s \<longrightarrow>
            (\<exists>i ws. word_index s = Some i \<and> words s = Some ws
                \<and> 0 \<le> i \<and> i \<le> max 0 (int (length ws) - 1)))
       \<and> (reading_tossup (fst (run e now ev s)) \<longrightarrow>
            (if reading_tossup s then
               (\<exists>i ws. word_index s = Some i \<and> words s = Some ws \<and> i < int (length ws) - 1
                  \<and> word_index (fst (run e now ev s)) = Some (i + 1)
                  \<and> words (fst (run e now ev s)) = Some ws
                  \<and> question (fst (run e now ev s)) = question s)
             else word_index (fst (run e now ev s)) = Some 0))"
proof (intro conjI impI)
  assume "reading_tossup s"
  then obtain t where "question s = Some (Tossup t)" "tossup_state s = Some Reading"
    by (auto dest: reading_tossupD)
  with reachable_inv [OF assms]
  show "\<exists>i ws. word_index s = Some i \<and> words s = Some ws
          \<and> 0 \<le> i \<and> i \<le> max 0 (int (length ws) - 1)"
    by (auto simp: inv_def tossup_inv_def)
next
  let ?s0 = "apply_widget ev s"
  let ?s1 = "fst (on_click e ev ?s0)"
  assume r: "reading_tossup (fst (run e now ev s))"
  have i1: "inv ?s1"
    by (intro inv_on_click inv_apply_widget reachable_inv assms)
  from r have r1: "reading_tossup (fst (trainer_body e now ev ?s1))"
    by (simp add: fst_run)
  from trainer_body_reading [OF i1 r1]
  show "if reading_tossup s then
          (\<exists>i ws. word_index s = Some i \<and> words s = Some ws \<and> i < int (length ws) - 1
             \<and> word_index (fst (run e now ev s)) = Some (i + 1)
             \<and> words (fst (run e now ev s)) = Some ws
             \<and> question (fst (run e now ev s)) = question s)
        else word_index (fst (run e now ev s)) = Some 0"
  proof (elim disjE conjE exE)
    fix i ws
    assume a: "reading_tossup ?s1" "word_index ?s1 = Some i" "words ?s1 = Some ws"
      "i < int (length ws) - 1"
      "fst (trainer_body e now ev ?s1) = ?s1\<lparr>word_index := Some (i + 1)\<rparr>"
    from a(1) have eq: "?s1 = ?s0" by (rule on_click_reading)
    with a(1) have "reading_tossup s" by (simp add: reading_tossup_apply_widget)
    with a eq show ?thesis
      by (simp add: fst_run apply_widget_fields)
  next
    assume a: "\<not> reading_tossup ?s1" "ev = ClickStartReading"
      "fst (trainer_body e now ev ?s1) = ?s1\<lparr>tossup_state := Some Reading, word_index := Some 0\<rparr>"
    from a(2) have eq: "?s1 = ?s0" by (simp add: on_click_def)
    with a(1) have "\<not> reading_tossup s" by (simp add: reading_tossup_apply_widget)
    with a show ?thesis by (simp add: fst_run)
  qed
qed

theorem reading_word_index_witness:
  "reachable sample_reading \<and> reading_tossup sample_reading
   \<and> reading_tossup (fst (run sample_env 2 Rerun sample_reading))
   \<and> (\<exists>i ws. word_index sample_reading = Some i \<and> words sample_reading = Some ws
         \<and> 0 \<le> i \<and> i \<le> max 0 (int (length ws) - 1)
         \<and> i < int (length ws) - 1
         \<and> word_index (fst (run sample_env 2 Rerun sample_reading)) = Some (i + 1))"
proof -
  have r: "reading_tossup sample_reading"
    by (simp add: sample_reading_eq reading_tossup_def)
  have r': "reading_tossup (fst (run sample_env 2 Rerun sample_reading))"
    by (simp add: sample_reading_next reading_tossup_def)
  from reading_word_index [OF reachable_sample_reading, of sample_env 2 Rerun] r r'
  show ?thesis
    by (auto simp: reachable_sample_reading)
qed

text \<open>
  The bound of C1 as the specification states it, \<open>[0, len(words) - 1]\<close>, fails for a
  tossup whose sanitized text is empty: starting to read sets the index to \<open>0\<close> while
  the last index is \<open>-1\<close>.
\<close>

theorem blank_tossup_index_out_of_range:
  "reachable blank_reading \<and> reading_tossup blank_reading
   \<and> word_index blank_reading = Some 0 \<and> words blank_reading = Some []
   \<and> \<not> (0::int) \<le> int (length ([]::string list)) - 1"
proof -
  have "reading_tossup blank_reading
    \<and> word_index blank_reading = Some 0 \<and> words blank_reading = Some []
    \<and> \<not> (0::int) \<le> int (length ([]::string list)) - 1"
    by (simp add: blank_reading_eq reading_tossup_def)
  with reachable_blank_reading show ?thesis by blast
qed

section \<open>Entering the grace period\<close>

lemma get_new_question_tossup_state:
  "tossup_state (fst (get_new_question e s)) = tossup_state s
   \<or> tossup_state (fst (get_new_question e s)) = Some Waiting"
  using get_new_question_cases [of e s] by (auto simp: fst_fetch_failed)

lemma trainer_body_Tossup_cases:
  assumes "question s = Some (Tossup t)"
  shows "fst (trainer_body e now ev s) = fst (tossup_branch e now ev t s)
     \<or> tossup_state (fst (tossup_branch e now ev t s)) = Some Over \<and> ev = ClickNextQuestion
       \<and> fst (trainer_body e now ev s) = fst (get_new_question e (fst (tossup_branch e now ev t s)))"
  using review_section_cases [of e ev "Tossup t" "fst (tossup_branch e now ev t s)"] assms
  by (auto simp: trainer_body_Tossup)

lemma trainer_body_Bonus_cases:
  assumes "question s = Some (Bonus b)"
  shows "fst (trainer_body e now ev s) = fst (bonus_branch e ev b s)
     \<or> tossup_state (fst (bonus_branch e ev b s)) = Some Over \<and> ev = ClickNextQuestion
       \<and> fst (trainer_body e now ev s) = fst (get_new_question e (fst (bonus_branch e ev b s)))"
  using review_section_cases [of e ev "Bonus b" "fst (bonus_branch e ev b s)"] assms
  by (auto simp: trainer_body_Bonus)

lemma bonus_branch_tossup_state:
  "tossup_state (fst (bonus_branch e ev b s)) = tossup_state s
   \<or> tossup_state (fst (bonus_branch e ev b s)) = Some Over"
  using bonus_branch_cases [where ev = ev and s = s and q = b and e = e] by auto

lemma tossup_branch_grace:
  assumes "tossup_inv t s" and "tossup_state s \<noteq> Some GracePeriod"
    and "tossup_state (fst (tossup_branch e now ev t s)) = Some GracePeriod"
  shows "tossup_state s = Some Reading \<and> ev \<noteq> ClickBuzz
     \<and> (\<exists>i ws. word_index s = Some i \<and> words s = Some ws \<and> \<not> i < int (length ws) - 1
           \<and> fst (tossup_branch e now ev t s) =
               s\<lparr>tossup_state := Some GracePeriod, grace_period_end := Some (now + 5)\<rparr>)"
proof -
  from assms(1) obtain i st where w: "words s = Some (py_split (question_sanitized t))"
    and i: "word_index s = Some i" and st: "tossup_state s = Some st"
    by (auto simp: tossup_inv_def)
  show ?thesis
  proof (cases st)
    case Waiting
    with assms(3) st show ?thesis
      by (simp add: tossup_branch_def waiting_branch_def split: if_splits)
  next
    case Reading
    with assms(3) st i w show ?thesis
      by (simp add: tossup_branch_def reading_branch_def split: if_splits)
  next
    case GracePeriod
    with assms(2) st show ?thesis by simp
  next
    case Buzzed
    with assms(3) st i w show ?thesis
      by (simp add: tossup_branch_def buzzed_branch_def answer_form_def
          split: if_splits event.splits sum.splits)
  next
    case Over
    with assms(3) st show ?thesis
      by (simp add: tossup_branch_def over_branch_def split: option.splits prod.splits)
  qed
qed

lemma trainer_body_grace:
  assumes "inv s" and "tossup_state s \<noteq> Some GracePeriod"
    and "tossup_state (fst (trainer_body e now ev s)) = Some GracePeriod"
  shows "reading_tossup s \<and> ev \<noteq> ClickBuzz
     \<and> (\<exists>i ws. word_index s = Some i \<and> words s = Some ws \<and> \<not> i < int (length ws) - 1
           \<and> fst (trainer_body e now ev s) =
               s\<lparr>tossup_state := Some GracePeriod, grace_period_end := Some (now + 5)\<rparr>)"
proof (cases "question s")
  case None
  with assms(2,3) show ?thesis by (simp add: trainer_body_None)
next
  case (Some q)
  show ?thesis
  proof (cases q)
    case (Bonus b)
    with Some assms(2,3) trainer_body_Bonus_cases [of s b e now ev]
      bonus_branch_tossup_state [of e ev b s]
      get_new_question_tossup_state [of e "fst (bonus_branch e ev b s)"]
    show ?thesis by auto
  next
    case (Tossup t)
    let ?T = "fst (tossup_branch e now ev t s)"
    from assms(1) Some Tossup have ti: "tossup_inv t s" by (simp add: inv_def)
    from Some Tossup assms(3) trainer_body_Tossup_cases [of s t e now ev]
      get_new_question_tossup_state [of e ?T]
    have tb: "fst (trainer_body e now ev s) = ?T" by auto
    with assms(3) have "tossup_state ?T = Some GracePeriod" by simp
    from tossup_branch_grace [OF ti assms(2) this] tb Some Tossup
    show ?thesis by (auto simp: reading_tossup_def)
  qed
qed

lemma on_click_tossup_state:
  "tossup_state (fst (on_click e ev s)) = tossup_state s
   \<or> tossup_state (fst (on_click e ev s)) = Some Waiting"
  using get_new_question_tossup_state [of e s] by (auto simp: on_click_def)

text \<open>
  Claim C2. From a reachable session state that is not in the grace period, a run ends in
  the grace period exactly when a tossup was being read, its word index had reached the
  last index (\<open>0\<close> for a text without words), the run was not caused by a buzz, and no
  new question was requested; and then the deadline is the time of the run plus five
  seconds.
\<close>

theorem grace_period_entered:
  assumes "reachable s" and "tossup_state s \<noteq> Some GracePeriod"
  shows "(tossup_state (fst (run e now ev s)) = Some GracePeriod \<longleftrightarrow>
            reading_tossup s \<and> ev \<noteq> ClickBuzz \<and> \<not> interrupts e ev s
            \<and> (\<exists>i ws. word_index s = Some i \<and> words s = Some ws
                  \<and> i = max 0 (int (length ws) - 1)))
       \<and> (tossup_state (fst (run e now ev s)) = Some GracePeriod \<longrightarrow>
            grace_period_end (fst (run e now ev s)) = Some (now + 5))"
proof -
  let ?s0 = "apply_widget ev s"
  let ?s1 = "fst (on_click e ev ?s0)"
  have i1: "inv ?s1"
    by (intro inv_on_click inv_apply_widget reachable_inv assms)
  have ng: "tossup_state ?s1 \<noteq> Some GracePeriod"
    using on_click_tossup_state [of e ev ?s0] assms(2) by (auto simp: apply_widget_fields)
  have bounds: "\<exists>i ws. word_index s = Some i \<and> words s = Some ws
      \<and> 0 \<le> i \<and> i \<le> max 0 (int (length ws) - 1)" if "reading_tossup s"
    using that reachable_inv [OF assms(1)]
    by (auto simp: inv_def tossup_inv_def dest!: reading_tossupD)
  have forward: "reading_tossup s \<and> ev \<noteq> ClickBuzz \<and> \<not> interrupts e ev s
      \<and> (\<exists>i ws. word_index s = Some i \<and> words s = Some ws \<and> i = max 0 (int (length ws) - 1))
      \<and> grace_period_end (fst (run e now ev s)) = Some (now + 5)"
    if g: "tossup_state (fst (run e now ev s)) = Some GracePeriod"
  proof -
    from g have "tossup_state (fst (trainer_body e now ev ?s1)) = Some GracePeriod"
      by (simp add: fst_run)
    from trainer_body_grace [OF i1 ng this]
    obtain i ws where r1: "reading_tossup ?s1" and nb: "ev \<noteq> ClickBuzz"
      and f: "word_index ?s1 = Some i" "words ?s1 = Some ws" "\<not> i < int (length ws) - 1"
        "fst (trainer_body e now ev ?s1) =
           ?s1\<lparr>tossup_state := Some GracePeriod, grace_period_end := Some (now + 5)\<rparr>"
      by blast
    from r1 have eq: "?s1 = ?s0" by (rule on_click_reading)
    with r1 have rs: "reading_tossup s" by (simp add: reading_tossup_apply_widget)
    from eq f have f': "word_index s = Some i" "words s = Some ws"
      by (simp_all add: apply_widget_fields)
    with bounds [OF rs] f(3) have "i = max 0 (int (length ws) - 1)" by auto
    with rs nb eq f f' show ?thesis
      by (simp add: interrupts_def fst_run)
  qed
  have backward: "tossup_state (fst (run e now ev s)) = Some GracePeriod"
    if rs: "reading_tossup s" and nb: "ev \<noteq> ClickBuzz" and ni: "\<not> interrupts e ev s"
      and l: "word_index s = Some i" "words s = Some ws" "i = max 0 (int (length ws) - 1)"
    for i ws
  proof -
    from ni have eq: "?s1 = ?s0" by (simp add: interrupts_def)
    from rs obtain t where "question s = Some (Tossup t)" "tossup_state s = Some Reading"
      by (auto dest: reading_tossupD)
    with l nb show ?thesis
      by (simp add: fst_run eq trainer_body_Tossup apply_widget_fields tossup_branch_def
          reading_branch_def)
  qed
  from forward backward show ?thesis by blast
qed

theorem grace_period_entered_witness:
  "reachable sample_last \<and> tossup_state sample_last \<noteq> Some GracePeriod
   \<and> reading_tossup sample_last \<and> \<not> interrupts sample_env Rerun sample_last
   \<and> word_index sample_last = Some 3 \<and> words sample_last = Some [''This'', ''poet'', ''wrote'', ''Endymion'']
   \<and> tossup_state (fst (run sample_env 5 Rerun sample_last)) = Some GracePeriod
   \<and> grace_period_end (fst (run sample_env 5 Rerun sample_last)) = Some 10"
proof -
  have f: "tossup_state sample_last \<noteq> Some GracePeriod" "reading_tossup sample_last"
    "\<not> interrupts sample_env Rerun sample_last" "word_index sample_last = Some 3"
    "words sample_last = Some [''This'', ''poet'', ''wrote'', ''Endymion'']"
    by (simp_all add: sample_last_eq reading_tossup_def interrupts_def on_click_def
        apply_widget_def)
  from grace_period_entered [OF reachable_sample_last f(1), of sample_env 5 Rerun] f
  show ?thesis
    by (simp add: reachable_sample_last)
qed

section \<open>Leaving the grace period, and the review of a tossup\<close>

lemma snd_run:
  "snd (run e now ev s) =
     snd (on_click e ev (apply_widget ev s))
     @ snd (trainer_body e now ev (fst (on_click e ev (apply_widget ev s))))"
  by (simp add: run_def case_prod_unfold)

lemma review_section_shows_answer:
  "tossup_state s = Some Over \<Longrightarrow>
   CorrectAnswer (answer t) \<in> set (snd (review_section e ev (Tossup t) s))"
  by (simp add: review_section_def next_question_button_def case_prod_unfold split: option.split)

lemma snd_trainer_body_Tossup:
  "question s = Some (Tossup t) \<Longrightarrow>
   snd (trainer_body e now ev s) =
     QuestionHeader (q_type s) (tossup_set_name t) (tossup_category t)
     # fst (snd (tossup_branch e now ev t s))
     @ (if snd (snd (tossup_branch e now ev t s))
        then snd (review_section e ev (Tossup t) (fst (tossup_branch e now ev t s)))
        else [])"
  by (simp add: trainer_body_def case_prod_unfold)

lemma over_branch_valid:
  assumes "tossup_inv t s" "tossup_state s = Some Over"
  shows "fst (over_branch t s) = s \<and> snd (snd (over_branch t s))
     \<and> (feedback s = Some None \<longrightarrow>
          fst (snd (over_branch t s)) = [Markdown (question_sanitized t), Warning ''Time's up!''])"
  using assms by (auto simp: tossup_inv_def over_branch_def st_attr_def)

lemma trainer_body_Over:
  assumes "inv s" "question s = Some (Tossup t)" "tossup_state s = Some Over"
  shows "CorrectAnswer (answer t) \<in> set (snd (trainer_body e now ev s))"
    and "feedback s = Some None \<Longrightarrow> Warning ''Time's up!'' \<in> set (snd (trainer_body e now ev s))"
    and "fst (trainer_body e now ev s) = s
         \<or> ev = ClickNextQuestion \<and> fst (trainer_body e now ev s) = fst (get_new_question e s)"
proof -
  from assms have ti: "tossup_inv t s" by (simp add: inv_def)
  note ob = over_branch_valid [OF ti assms(3)]
  have tb: "tossup_branch e now ev t s = over_branch t s"
    using assms(3) by (simp add: tossup_branch_def)
  show "CorrectAnswer (answer t) \<in> set (snd (trainer_body e now ev s))"
    using ob assms(3) review_section_shows_answer [of s t e ev]
    by (simp add: snd_trainer_body_Tossup [OF assms(2)] tb)
  show "Warning ''Time's up!'' \<in> set (snd (trainer_body e now ev s))" if "feedback s = Some None"
    using ob that by (simp add: snd_trainer_body_Tossup [OF assms(2)] tb)
  show "fst (trainer_body e now ev s) = s
         \<or> ev = ClickNextQuestion \<and> fst (trainer_body e now ev s) = fst (get_new_question e s)"
    using trainer_body_Tossup_cases [OF assms(2), of e now ev] ob by (auto simp: tb)
qed

text \<open>
  Claim C3. A tossup is in the grace period and the run requests no new question. When
  the time of the run has reached or passed the stored deadline, the run ends in state
  \<open>Over\<close> with no verdict stored, whatever caused the run, and the next run shows the
  notice that time is up. When the run is caused by a buzz strictly before the deadline,
  it ends in state \<open>Buzzed\<close>; any other run before the deadline stays in the grace
  period.
\<close>

theorem grace_period_exit:
  assumes "reachable s" and "question s = Some (Tossup t)"
    and "tossup_state s = Some GracePeriod" and "\<not> interrupts e ev s"
  shows "\<exists>d. grace_period_end s = Some d
     \<and> (d \<le> now \<longrightarrow>
          tossup_state (fst (run e now ev s)) = Some Over
          \<and> feedback (fst (run e now ev s)) = Some None
          \<and> question (fst (run e now ev s)) = Some (Tossup t)
          \<and> Warning ''Time's up!'' \<in> set (snd (run e' now' Rerun (fst (run e now ev s)))))
     \<and> (now < d \<and> ev = ClickBuzz \<longrightarrow> tossup_state (fst (run e now ev s)) = Some Buzzed)
     \<and> (now < d \<and> ev \<noteq> ClickBuzz \<longrightarrow> tossup_state (fst (run e now ev s)) = Some GracePeriod)"
proof -
  let ?s0 = "apply_widget ev s"
  from assms(4) have eq: "fst (on_click e ev ?s0) = ?s0" by (simp add: interrupts_def)
  from reachable_inv [OF assms(1)] assms(2,3) obtain d
    where d: "grace_period_end s = Some d" and fb: "feedback s = Some None"
    by (auto simp: inv_def tossup_inv_def)
  have q0: "question ?s0 = Some (Tossup t)" using assms(2) by (simp add: apply_widget_fields)
  have T: "tossup_branch e now ev t ?s0 = grace_period_branch now ev t ?s0"
    using assms(3) by (simp add: tossup_branch_def apply_widget_fields)
  have G: "grace_period_branch now ev t ?s0 =
     (if d - now > 0 then
        (if ev = ClickBuzz then
           (?s0\<lparr>tossup_state := Some Buzzed\<rparr>,
            [Markdown (question_sanitized t), TimeToBuzz (d - now)], False)
         else (?s0, [Markdown (question_sanitized t), TimeToBuzz (d - now)], False))
      else (?s0\<lparr>tossup_state := Some Over\<rparr>, [Markdown (question_sanitized t)], False))"
    using d by (simp add: grace_period_branch_def apply_widget_fields)
  have r: "fst (run e now ev s) = fst (grace_period_branch now ev t ?s0)"
    by (simp add: fst_run eq trainer_body_Tossup [OF q0] T G)
  have late: "tossup_state (fst (run e now ev s)) = Some Over
          \<and> feedback (fst (run e now ev s)) = Some None
          \<and> question (fst (run e now ev s)) = Some (Tossup t)
          \<and> Warning ''Time's up!'' \<in> set (snd (run e' now' Rerun (fst (run e now ev s))))"
    if "d \<le> now"
  proof -
    let ?s' = "fst (run e now ev s)"
    from that have s': "?s' = ?s0\<lparr>tossup_state := Some Over\<rparr>" by (simp add: r G)
    then have f: "tossup_state ?s' = Some Over" "feedback ?s' = Some None"
      "question ?s' = Some (Tossup t)"
      using fb assms(2) by (simp_all add: apply_widget_fields)
    have "reachable ?s'" by (rule reachable.step [OF assms(1)])
    then have "inv ?s'" by (rule reachable_inv)
    from trainer_body_Over(2) [OF this f(3) f(1) f(2)]
    have "Warning ''Time's up!'' \<in> set (snd (run e' now' Rerun ?s'))"
      by (simp add: snd_run on_click_def apply_widget_def)
    with f show ?thesis by simp
  qed
  have early: "tossup_state (fst (run e now ev s)) = Some (if ev = ClickBuzz then Buzzed else GracePeriod)"
    if "now < d"
    using that assms(3) by (simp add: r G apply_widget_fields)
  from d late early show ?thesis by auto
qed

theorem grace_period_exit_witness:
  "reachable sample_grace \<and> question sample_grace = Some (Tossup sample_tossup)
   \<and> tossup_state sample_grace = Some GracePeriod
   \<and> \<not> interrupts sample_env Rerun sample_grace
   \<and> \<not> interrupts sample_env ClickBuzz sample_grace
   \<and> grace_period_end sample_grace = Some 10
   \<and> tossup_state (fst (run sample_env 10 Rerun sample_grace)) = Some Over
   \<and> feedback (fst (run sample_env 10 Rerun sample_grace)) = Some None
   \<and> Warning ''Time's up!''
       \<in> set (snd (run sample_env 11 Rerun (fst (run sample_env 10 Rerun sample_grace))))
   \<and> tossup_state (fst (run sample_env 6 ClickBuzz sample_grace)) = Some Buzzed"
proof -
  have f: "question sample_grace = Some (Tossup sample_tossup)"
    "tossup_state sample_grace = Some GracePeriod"
    "\<not> interrupts sample_env Rerun sample_grace"
    "\<not> interrupts sample_env ClickBuzz sample_grace"
    "grace_period_end sample_grace = Some 10"
    by (simp_all add: sample_grace_eq interrupts_def on_click_def apply_widget_def)
  from grace_period_exit [OF reachable_sample_grace f(1) f(2) f(3),
      where now = 10 and e' = sample_env and now' = 11]
    grace_period_exit [OF reachable_sample_grace f(1) f(2) f(4),
      where now = 6 and e' = sample_env and now' = 11] f
  show ?thesis
    by (simp add: reachable_sample_grace)
qed

text \<open>
  Claim C4. For a tossup in state \<open>Buzzed\<close>, the run caused by submitting an answer
  that the judge decides ends in state \<open>Over\<close> with the verdict of the judge stored,
  and the question stays. For a tossup in state \<open>Over\<close>, every run that requests no new
  question leaves the state and the stored verdict as they are, so the transition is not
  taken again, and shows the answer text of the question, whatever verdict is stored or
  none.
\<close>

theorem buzzed_to_over:
  assumes "reachable s" and "question s = Some (Tossup t)"
  shows "(tossup_state s = Some Buzzed \<and> ev = SubmitAnswer a \<and> check_answer_sync e t a = Inr v \<longrightarrow>
            tossup_state (fst (run e now ev s)) = Some Over
            \<and> feedback (fst (run e now ev s)) =
                Some (Some (if v then (''success'', ''Correct!'') else (''error'', ''Incorrect.'')))
            \<and> question (fst (run e now ev s)) = Some (Tossup t))
       \<and> (tossup_state s = Some Over \<and> \<not> interrupts e ev s \<longrightarrow>
            fst (run e now ev s) = apply_widget ev s
            \<and> CorrectAnswer (answer t) \<in> set (snd (run e now ev s)))"
proof -
  have submit: "tossup_state (fst (run e now ev s)) = Some Over
            \<and> feedback (fst (run e now ev s)) =
                Some (Some (if v then (''success'', ''Correct!'') else (''error'', ''Incorrect.'')))
            \<and> question (fst (run e now ev s)) = Some (Tossup t)"
    if b: "tossup_state s = Some Buzzed" "ev = SubmitAnswer a" "check_answer_sync e t a = Inr v"
  proof -
  from reachable_inv [OF assms(1)] assms(2) b(1) obtain i ws
    where "word_index s = Some i" "words s = Some ws"
    by (auto simp: inv_def tossup_inv_def)
  with b assms(2)
  have "fst (run e now ev s) =
      s\<lparr>feedback := Some (Some (if v then (''success'', ''Correct!'') else (''error'', ''Incorrect.''))),
        tossup_state := Some Over\<rparr>"
    by (simp add: fst_run on_click_def apply_widget_def trainer_body_Tossup tossup_branch_def
        buzzed_branch_def answer_form_def)
  with assms(2) show ?thesis by simp
  qed
  let ?s0 = "apply_widget ev s"
  have stay: "fst (run e now ev s) = apply_widget ev s
            \<and> CorrectAnswer (answer t) \<in> set (snd (run e now ev s))"
    if o: "tossup_state s = Some Over" "\<not> interrupts e ev s"
  proof -
  from o(2) have eq: "fst (on_click e ev ?s0) = ?s0" by (simp add: interrupts_def)
  have i0: "inv ?s0" by (intro inv_apply_widget reachable_inv assms)
  have q0: "question ?s0 = Some (Tossup t)" "tossup_state ?s0 = Some Over"
    using assms(2) o(1) by (simp_all add: apply_widget_fields)
  from trainer_body_Over(3) [OF i0 q0, of e now ev] eq
  have "fst (trainer_body e now ev ?s0) = ?s0"
    by (auto simp: on_click_def)
  moreover from trainer_body_Over(1) [OF i0 q0, of e now ev]
  have "CorrectAnswer (answer t) \<in> set (snd (run e now ev s))"
    by (simp add: snd_run eq)
  ultimately show ?thesis
    by (simp add: fst_run eq)
  qed
  from submit stay show ?thesis by blast
qed

theorem buzzed_to_over_witness:
  "reachable sample_buzzed \<and> question sample_buzzed = Some (Tossup sample_tossup)
   \<and> tossup_state sample_buzzed = Some Buzzed
   \<and> check_answer_sync sample_env sample_tossup ''Keats'' = Inr True
   \<and> tossup_state (fst (run sample_env 7 (SubmitAnswer ''Keats'') sample_buzzed)) = Some Over
   \<and> feedback (fst (run sample_env 7 (SubmitAnswer ''Keats'') sample_buzzed))
       = Some (Some (''success'', ''Correct!''))
   \<and> reachable sample_timed_out \<and> question sample_timed_out = Some (Tossup sample_tossup)
   \<and> tossup_state sample_timed_out = Some Over \<and> feedback sample_timed_out = Some None
   \<and> \<not> interrupts sample_env (SubmitAnswer ''Keats'') sample_timed_out
   \<and> fst (run sample_env 12 (SubmitAnswer ''Keats'') sample_timed_out) = sample_timed_out
   \<and> CorrectAnswer ''John Keats''
       \<in> set (snd (run sample_env 12 (SubmitAnswer ''Keats'') sample_timed_out))"
proof -
  have f: "question sample_buzzed = Some (Tossup sample_tossup)"
    "tossup_state sample_buzzed = Some Buzzed"
    "check_answer_sync sample_env sample_tossup ''Keats'' = Inr True"
    by (simp_all add: sample_buzzed_eq sample_env_def bank_of_def sample_tossup_def)
  have g: "question sample_timed_out = Some (Tossup sample_tossup)"
    "tossup_state sample_timed_out = Some Over" "feedback sample_timed_out = Some None"
    "\<not> interrupts sample_env (SubmitAnswer ''Keats'') sample_timed_out"
    "apply_widget (SubmitAnswer ''Keats'') sample_timed_out = sample_timed_out"
    "answer sample_tossup = ''John Keats''"
    by (simp_all add: sample_timed_out_eq interrupts_def on_click_def apply_widget_def
        sample_tossup_def)
  from buzzed_to_over [OF reachable_sample_buzzed f(1),
      where ev = "SubmitAnswer ''Keats''" and a = "''Keats''" and e = sample_env and v = True
        and now = 7]
    buzzed_to_over [OF reachable_sample_timed_out g(1),
      where ev = "SubmitAnswer ''Keats''" and a = "''Keats''" and e = sample_env and v = True
        and now = 12] f g
  show ?thesis
    by (simp add: reachable_sample_buzzed reachable_sample_timed_out)
qed

section \<open>Bonus progress\<close>

text \<open>
  While a bonus is the active question and no new question is requested, a run leaves the
  list of judged answers as it is or appends one entry, the judged answer to the first
  part that had none; the list is never longer than the parts.
\<close>

lemma bonus_progress_step:
  assumes "reachable s" and "question s = Some (Bonus b)" and "\<not> interrupts e ev s"
  shows "length (given_answers s) \<le> length (parts b)
     \<and> (given_answers (fst (run e now ev s)) = given_answers s
        \<or> (\<exists>a c. ev = SubmitBonusPart (length (given_answers s)) a
              \<and> length (given_answers s) < length (parts b)
              \<and> check_answer e (answers b ! length (given_answers s)) a = Inr c
              \<and> given_answers (fst (run e now ev s)) = given_answers s @ [(c, a)]))"
proof -
  let ?s0 = "apply_widget ev s"
  from assms(3) have eq: "fst (on_click e ev ?s0) = ?s0" by (simp add: interrupts_def)
  have q0: "question ?s0 = Some (Bonus b)" using assms(2) by (simp add: apply_widget_fields)
  have g0: "given_answers ?s0 = given_answers s"
    by (simp add: given_answers_def apply_widget_fields)
  from reachable_inv [OF assms(1)] assms(2)
  have len: "length (given_answers s) \<le> length (parts b)"
    by (auto simp: inv_def bonus_inv_def given_answers_def split: option.splits)
  from bonus_branch_cases [where ev = ev and s = ?s0 and q = b and e = e]
  have B: "given_answers (fst (bonus_branch e ev b ?s0)) = given_answers s
        \<or> (\<exists>a c. ev = SubmitBonusPart (length (given_answers s)) a
              \<and> length (given_answers s) < length (parts b)
              \<and> check_answer e (answers b ! length (given_answers s)) a = Inr c
              \<and> given_answers (fst (bonus_branch e ev b ?s0)) = given_answers s @ [(c, a)])"
    by (auto simp: g0 given_answers_update)
  from trainer_body_Bonus_cases [OF q0, of e now ev]
  have "fst (trainer_body e now ev ?s0) = fst (bonus_branch e ev b ?s0)"
  proof
    assume "tossup_state (fst (bonus_branch e ev b ?s0)) = Some Over \<and> ev = ClickNextQuestion
       \<and> fst (trainer_body e now ev ?s0) = fst (get_new_question e (fst (bonus_branch e ev b ?s0)))"
    then have n: "ev = ClickNextQuestion"
      and t: "fst (trainer_body e now ev ?s0) = fst (get_new_question e (fst (bonus_branch e ev b ?s0)))"
      by blast+
    from n bonus_branch_cases [where ev = ev and s = ?s0 and q = b and e = e]
    have bb: "fst (bonus_branch e ev b ?s0) = ?s0
        \<or> fst (bonus_branch e ev b ?s0) = ?s0\<lparr>tossup_state := Some Over\<rparr>"
      by auto
    from n eq have g: "fst (get_new_question e ?s0) = ?s0" by (simp add: on_click_def)
    then have v: "selected_difficulties ?s0 = [] \<or> selected_categories ?s0 = []"
      by (simp add: get_new_question_unchanged)
    then have "fst (get_new_question e (fst (bonus_branch e ev b ?s0))) = fst (bonus_branch e ev b ?s0)"
      using bb by (auto simp: get_new_question_unchanged selected_update)
    with t show ?thesis by simp
  qed simp
  with B len show ?thesis by (simp add: fst_run eq)
qed

text \<open>
  Claim C5 at a concrete session: a bonus is answered to its end, the review opens, and
  the button under the review is pressed. The new bonus has no answer yet, its three
  parts are unanswered, and the state left over from the previous question is still
  \<open>Over\<close>: the next run shows the review with the answers of all three parts.
\<close>

theorem fresh_bonus_already_in_review:
  "reachable bonus_next \<and> question bonus_next = Some (Bonus sample_bonus)
   \<and> given_answers bonus_next = [] \<and> length (parts sample_bonus) = 3
   \<and> tossup_state bonus_next = Some Over
   \<and> snd (run sample_env 7 Rerun bonus_next) =
       [QuestionHeader ''Bonus'' ''Set A'' ''Geography'', Leadin ''Name these capitals'',
        Part 1 ''France'', ReviewHeader, PartReview 1 ''France'' ''Paris'',
        PartReview 2 ''Italy'' ''Rome'', PartReview 3 ''Germany'' ''Berlin'']"
proof -
  have "question bonus_next = Some (Bonus sample_bonus)
   \<and> given_answers bonus_next = [] \<and> length (parts sample_bonus) = 3
   \<and> tossup_state bonus_next = Some Over"
    by (simp add: bonus_next_eq given_answers_def sample_bonus_fields)
  moreover have "snd (run sample_env 7 Rerun bonus_next) =
       [QuestionHeader ''Bonus'' ''Set A'' ''Geography'', Leadin ''Name these capitals'',
        Part 1 ''France'', ReviewHeader, PartReview 1 ''France'' ''Paris'',
        PartReview 2 ''Italy'' ''Rome'', PartReview 3 ''Germany'' ''Berlin'']"
    by (simp add: bonus_next_eq run_defs init_fields sample_env_def bank_of_def bonus_defs
        sample_bonus_fields sample_bonus_def upt_rec)
  ultimately show ?thesis using reachable_bonus_next by blast
qed

section \<open>Validation and failure of a request\<close>

text \<open>
  Claim C6. When no difficulty or no category is selected, \<^verbatim>\<open>get_new_question\<close> shows
  the validation error and returns the session state it was given: nothing is written and
  no request is sent to the question bank.
\<close>

theorem empty_selection_rejected:
  assumes "selected_difficulties s = [] \<or> selected_categories s = []"
  shows "get_new_question e s =
    (s, [Error ''Please select at least one difficulty and one category.''])"
  using assms by (auto simp: get_new_question_def)

theorem empty_selection_rejected_witness:
  "selected_categories sample_over_unticked = []
   \<and> get_new_question sample_env sample_over_unticked =
       (sample_over_unticked, [Error ''Please select at least one difficulty and one category.''])"
proof -
  have c: "selected_categories sample_over_unticked = []"
    by (simp add: sample_over_unticked_def selected_categories_def category_map_def)
  from empty_selection_rejected [OF disjI2 [OF c], of sample_env] c show ?thesis by simp
qed

lemma fetch_fails_get_new_question:
  assumes "selected_difficulties s \<noteq> []" and "selected_categories s \<noteq> []"
    and "fetch_fails e s"
  shows "\<exists>x. get_new_question e s = fetch_failed x (s\<lparr>fetches := Suc (fetches s)\<rparr>)"
  using assms
  by (auto simp: get_new_question_def fetch_fails_def split: sum.splits list.splits if_splits)

text \<open>
  Claim C9. When the selection is valid and the request to the question bank fails, by an
  exception of the client or by an empty answer, \<^verbatim>\<open>get_new_question\<close> shows an error
  message and sets the question to none; nothing else of the session state is written
  (the request is counted). The script then shows the invitation to get a new question
  and leaves the session state as it is, whatever caused the run.
\<close>

theorem failed_fetch_clears_question:
  assumes "selected_difficulties s \<noteq> []" and "selected_categories s \<noteq> []"
    and "fetch_fails e s"
  shows "fst (get_new_question e s) = s\<lparr>fetches := Suc (fetches s), question := None\<rparr>
     \<and> (snd (get_new_question e s) =
           [Error ''No questions found with the selected criteria. Please broaden your selection.'']
        \<or> (\<exists>x. snd (get_new_question e s) = [ErrorExc ''An error occurred: '' x]))
     \<and> trainer_body e' now ev (fst (get_new_question e s)) =
         (fst (get_new_question e s),
          [Info ''Click 'Get New Question' in the sidebar to start practicing!''])"
proof -
  from fetch_fails_get_new_question [OF assms] obtain x
    where g: "get_new_question e s = fetch_failed x (s\<lparr>fetches := Suc (fetches s)\<rparr>)" ..
  then have 1: "fst (get_new_question e s) = s\<lparr>fetches := Suc (fetches s), question := None\<rparr>"
    by (simp add: fst_fetch_failed)
  have 2: "snd (get_new_question e s) =
           [Error ''No questions found with the selected criteria. Please broaden your selection.'']
        \<or> (\<exists>x. snd (get_new_question e s) = [ErrorExc ''An error occurred: '' x])"
    unfolding g by (simp add: fetch_failed_def)
  have 3: "trainer_body e' now ev (fst (get_new_question e s)) =
         (fst (get_new_question e s),
          [Info ''Click 'Get New Question' in the sidebar to start practicing!''])"
    by (rule trainer_body_None) (simp add: 1)
  from 1 2 3 show ?thesis by blast
qed

theorem failed_fetch_clears_question_witness:
  "selected_difficulties sample_reading \<noteq> [] \<and> selected_categories sample_reading \<noteq> []
   \<and> fetch_fails empty_bank sample_reading
   \<and> get_new_question empty_bank sample_reading =
       (sample_reading\<lparr>fetches := 2, question := None\<rparr>,
        [Error ''No questions found with the selected criteria. Please broaden your selection.''])
   \<and> run empty_bank 3 ClickGetNewQuestion sample_reading =
       (sample_reading\<lparr>fetches := 2, question := None\<rparr>,
        [Error ''No questions found with the selected criteria. Please broaden your selection.'',
         Info ''Click 'Get New Question' in the sidebar to start practicing!''])"
proof -
  have sel: "selected_difficulties sample_reading \<noteq> []" "selected_categories sample_reading \<noteq> []"
    by (simp_all add: sample_reading_eq selected_update selected_init category_map_def)
  have ff: "fetch_fails empty_bank sample_reading"
    by (simp add: fetch_fails_def sample_reading_eq init_fields empty_bank_def)
  have msg: "snd (get_new_question empty_bank sample_reading) =
      [Error ''No questions found with the selected criteria. Please broaden your selection.'']"
    using sel
    by (simp add: get_new_question_def sample_reading_eq init_fields empty_bank_def
        fetch_failed_def selected_update)
  have fe: "fetches sample_reading = 1" by (simp add: sample_reading_eq)
  from failed_fetch_clears_question [OF sel ff, of empty_bank 3 ClickGetNewQuestion]
  have 1: "fst (get_new_question empty_bank sample_reading) =
      sample_reading\<lparr>fetches := Suc (fetches sample_reading), question := None\<rparr>"
    and 3: "trainer_body empty_bank 3 ClickGetNewQuestion
        (fst (get_new_question empty_bank sample_reading)) =
         (fst (get_new_question empty_bank sample_reading),
          [Info ''Click 'Get New Question' in the sidebar to start practicing!''])"
    by blast+
  from 1 msg fe have g: "get_new_question empty_bank sample_reading =
       (sample_reading\<lparr>fetches := 2, question := None\<rparr>,
        [Error ''No questions found with the selected criteria. Please broaden your selection.''])"
    by (simp add: prod_eq_iff)
  from 3 have "run empty_bank 3 ClickGetNewQuestion sample_reading =
       (sample_reading\<lparr>fetches := 2, question := None\<rparr>,
        [Error ''No questions found with the selected criteria. Please broaden your selection.'',
         Info ''Click 'Get New Question' in the sidebar to start practicing!''])"
    unfolding g by (simp add: run_def on_click_def apply_widget_def g)
  with g sel ff show ?thesis by blast
qed

section \<open>The button under the review\<close>

text \<open>
  Claim C10, as the script has it. The callback of the button runs \<^verbatim>\<open>get_new_question\<close>
  before the script; the script calls it again only when it reaches the button, which is
  shown only in state \<open>Over\<close>. When a tossup is requested with a valid selection, the
  callback sends one request; if it fails the question is none, and if it succeeds the
  state is \<open>Waiting\<close>: either way the button is not reached, so the run sends exactly one
  request, and a fetched tossup is the question the session holds afterwards.
\<close>

theorem next_question_fetches_once:
  assumes "q_type s = ''Tossup''"
    and "selected_difficulties s \<noteq> []" and "selected_categories s \<noteq> []"
  shows "fetches (fst (run e now ClickNextQuestion s)) = Suc (fetches s)
     \<and> (random_tossup e (fetches s) (selected_difficulties s) (selected_categories s)
          = Inr (q # qs) \<longrightarrow>
          question (fst (run e now ClickNextQuestion s)) = Some (Tossup q)
          \<and> tossup_state (fst (run e now ClickNextQuestion s)) = Some Waiting)
     \<and> (fetch_fails e s \<longrightarrow> question (fst (run e now ClickNextQuestion s)) = None)"
proof -
  let ?g = "fst (get_new_question e s)"
  have r: "fst (run e now ClickNextQuestion s) = fst (trainer_body e now ClickNextQuestion ?g)"
    by (simp add: fst_run on_click_def apply_widget_def)
  have ok: "fst (trainer_body e now ClickNextQuestion ?g) = ?g
      \<and> question ?g = Some (Tossup q) \<and> tossup_state ?g = Some Waiting"
    if "random_tossup e (fetches s) (selected_difficulties s) (selected_categories s) = Inr (q # qs)"
    for q qs
  proof -
    from that assms have g: "?g = s\<lparr>fetches := Suc (fetches s),
        words := Some (py_split (question_sanitized q)), tossup_state := Some Waiting,
        question := Some (Tossup q), word_index := Some (- 1), feedback := Some None\<rparr>"
      by (simp add: get_new_question_def)
    then have "question ?g = Some (Tossup q)" "tossup_state ?g = Some Waiting" by simp_all
    then show ?thesis
      by (simp add: trainer_body_Tossup tossup_branch_def waiting_branch_def review_section_def)
  qed
  have bad: "fst (trainer_body e now ClickNextQuestion ?g) = ?g \<and> question ?g = None"
    if "fetch_fails e s"
  proof -
    from fetch_fails_get_new_question [OF assms(2,3) that]
    have "question ?g = None" by (auto simp: fst_fetch_failed)
    then show ?thesis by (simp add: trainer_body_None)
  qed
  have "fetch_fails e s \<or> (\<exists>q qs. random_tossup e (fetches s) (selected_difficulties s)
      (selected_categories s) = Inr (q # qs))"
    using assms(1) by (auto simp: fetch_fails_def split: sum.splits list.splits)
  then have "fst (trainer_body e now ClickNextQuestion ?g) = ?g"
    using ok bad by blast
  then have "fetches (fst (run e now ClickNextQuestion s)) = Suc (fetches s)"
    using assms(2,3) by (simp add: r fetches_get_new_question)
  with ok bad show ?thesis by (simp add: r)
qed

theorem next_question_fetches_once_witness:
  "q_type sample_over = ''Tossup''
   \<and> selected_difficulties sample_over \<noteq> [] \<and> selected_categories sample_over \<noteq> []
   \<and> fetches sample_over = 1
   \<and> random_tossup numbered_bank 1 (selected_difficulties sample_over)
        (selected_categories sample_over) = Inr [sample_tossup\<lparr>answer := ''x''\<rparr>]
   \<and> fetches (fst (run numbered_bank 8 ClickNextQuestion sample_over)) = 2
   \<and> question (fst (run numbered_bank 8 ClickNextQuestion sample_over))
       = Some (Tossup (sample_tossup\<lparr>answer := ''x''\<rparr>))
   \<and> tossup_state (fst (run numbered_bank 8 ClickNextQuestion sample_over)) = Some Waiting"
proof -
  have f: "q_type sample_over = ''Tossup''"
    "selected_difficulties sample_over \<noteq> []" "selected_categories sample_over \<noteq> []"
    "fetches sample_over = 1"
    by (simp_all add: sample_over_eq selected_update selected_init category_map_def init_fields)
  have g: "random_tossup numbered_bank (fetches sample_over) (selected_difficulties sample_over)
        (selected_categories sample_over) = Inr [sample_tossup\<lparr>answer := ''x''\<rparr>]"
    by (simp add: f(4) numbered_bank_def)
  from next_question_fetches_once [OF f(1) f(2) f(3), of numbered_bank 8
      "sample_tossup\<lparr>answer := ''x''\<rparr>" "[]"] g f
  show ?thesis by simp
qed

text \<open>
  C10 as the specification states it fails on the review screen of a tossup: one press
  of the button, with a tossup requested, sends one request to the question bank (the
  count goes from \<open>1\<close> to \<open>2\<close>), and the question of the session afterwards is the answer
  to that request.
\<close>

theorem next_question_single_request:
  "reachable sample_over \<and> tossup_state sample_over = Some Over
   \<and> question sample_over = Some (Tossup sample_tossup) \<and> fetches sample_over = 1
   \<and> fetches (fst (run numbered_bank 8 ClickNextQuestion sample_over)) = 2
   \<and> random_tossup numbered_bank 1 [HS_REGS] (map snd category_map)
       = Inr [sample_tossup\<lparr>answer := ''x''\<rparr>]
   \<and> question (fst (run numbered_bank 8 ClickNextQuestion sample_over))
       = Some (Tossup (sample_tossup\<lparr>answer := ''x''\<rparr>))"
proof -
  have "tossup_state sample_over = Some Over
   \<and> question sample_over = Some (Tossup sample_tossup) \<and> fetches sample_over = 1
   \<and> fetches (fst (run numbered_bank 8 ClickNextQuestion sample_over)) = 2
   \<and> random_tossup numbered_bank 1 [HS_REGS] (map snd category_map)
       = Inr [sample_tossup\<lparr>answer := ''x''\<rparr>]
   \<and> question (fst (run numbered_bank 8 ClickNextQuestion sample_over))
       = Some (Tossup (sample_tossup\<lparr>answer := ''x''\<rparr>))"
    by (simp add: sample_over_eq run_defs selected_update selected_init init_fields
        category_map_def numbered_bank_def)
  with reachable_sample_over show ?thesis by blast
qed

section \<open>Pagination of the search results\<close>







section \<open>Failures of the explanation fetcher\<close>

lemma request_explanation_fails:
  assumes "(\<exists>x. post h key prompt = Inl x \<and> is_request_exception x)
     \<or> (\<exists>status body. post h key prompt = Inr (status, body)
           \<and> (400 \<le> status \<and> status < 600 \<or> parse_json h body = None))
     \<or> (\<exists>status body result text. post h key prompt = Inr (status, body)
           \<and> parse_json h body = Some result \<and> contains_key ''candidates'' result = Inr True
           \<and> candidate_text result = Inr (JStr text) \<and> parse_json h text = None)"
  shows "\<exists>x. request_explanation h key prompt = Inl x \<and> caught x"
  using assms
  by (auto simp: request_explanation_def caught_def is_request_exception_def then_do_def
      json_loads_def)

text \<open>
  Claim C8. When the request raises an exception of the HTTP library, or the response has
  an error status, or its body is not JSON, or the text of its first candidate is not
  JSON, the explanation fetcher shows an error and returns the empty dictionary: no
  exception reaches the caller. With no key configured it does the same without a request.
\<close>

theorem explanation_failure_is_empty:
  assumes "api_key h = Some key"
    and "(\<exists>x. post h key prompt = Inl x \<and> is_request_exception x)
     \<or> (\<exists>status body. post h key prompt = Inr (status, body)
           \<and> (400 \<le> status \<and> status < 600 \<or> parse_json h body = None))
     \<or> (\<exists>status body result text. post h key prompt = Inr (status, body)
           \<and> parse_json h body = Some result \<and> contains_key ''candidates'' result = Inr True
           \<and> candidate_text result = Inr (JStr text) \<and> parse_json h text = None)"
  shows "fst (get_ai_structured_explanation h prompt) = Inr (JObj [])
     \<and> (\<exists>m. snd (get_ai_structured_explanation h prompt) = [m])"
proof (cases "key = []")
  case True
  with assms(1) show ?thesis by (simp add: get_ai_structured_explanation_def)
next
  case False
  from request_explanation_fails [OF assms(2)] obtain x
    where "request_explanation h key prompt = Inl x" "caught x" by blast
  with assms(1) False show ?thesis by (simp add: get_ai_structured_explanation_def)
qed

theorem explanation_failure_is_empty_witness:
  "api_key malformed_endpoint = Some ''k''
   \<and> post malformed_endpoint ''k'' ''Explain Keats'' = Inr (200, ''{not json'')
   \<and> parse_json malformed_endpoint ''{not json'' = None
   \<and> fst (get_ai_structured_explanation malformed_endpoint ''Explain Keats'') = Inr (JObj [])
   \<and> snd (get_ai_structured_explanation malformed_endpoint ''Explain Keats'') =
       [ErrorExc ''An error occurred while getting the AI explanation: '' JSONDecodeError]"
proof -
  have f: "api_key malformed_endpoint = Some ''k''"
    "post malformed_endpoint ''k'' ''Explain Keats'' = Inr (200, ''{not json'')"
    "parse_json malformed_endpoint ''{not json'' = None"
    by (simp_all add: malformed_endpoint_def)
  have g: "snd (get_ai_structured_explanation malformed_endpoint ''Explain Keats'') =
       [ErrorExc ''An error occurred while getting the AI explanation: '' JSONDecodeError]"
    by (simp add: get_ai_structured_explanation_def malformed_endpoint_def
        request_explanation_def caught_def)
  have "(\<exists>x. post malformed_endpoint ''k'' ''Explain Keats'' = Inl x \<and> is_request_exception x)
     \<or> (\<exists>status body. post malformed_endpoint ''k'' ''Explain Keats'' = Inr (status, body)
           \<and> (400 \<le> status \<and> status < 600 \<or> parse_json malformed_endpoint body = None))
     \<or> (\<exists>status body result text. post malformed_endpoint ''k'' ''Explain Keats'' = Inr (status, body)
           \<and> parse_json malformed_endpoint body = Some result
           \<and> contains_key ''candidates'' result = Inr True
           \<and> candidate_text result = Inr (JStr text) \<and> parse_json malformed_endpoint text = None)"
    using f by simp
  from explanation_failure_is_empty [OF f(1) this] f g show ?thesis by simp
qed

text \<open>
  Not every bad response is caught: a body that is JSON of an unexpected shape, here with
  an empty list of candidates, makes the fetcher raise.
\<close>

lemma explanation_unexpected_shape_raises:
  "get_ai_structured_explanation no_candidate_endpoint ''Explain Keats'' = (Inl IndexError, [])"
  by (simp add: get_ai_structured_explanation_def no_candidate_endpoint_def
      request_explanation_def contains_key_def candidate_text_def subscript_key_def
      subscript_int_def then_do_def caught_def is_request_exception_def)

end
